(* ===== verification/Prelude.thy ===== *)
theory Prelude
  imports Main "HOL-Library.Word" "HOL-Library.Sublist" "HOL-Library.Multiset"
begin

text \<open>
  Shared vocabulary of the hoodproxy development: the byte and byte-string types the
  sockets carry, the Python exceptions the code raises or lets escape, the lemma
  collections the component theories feed, and generic facts on lists and multisets
  that the invariant proofs of the proxy use.
\<close>

section \<open>Types of the model\<close>

text \<open>A Python \<open>bytes\<close> object is a list of 8-bit words.\<close>

type_synonym byte = "8 word"
type_synonym bytes = "byte list"

text \<open>Socket and thread identifiers are indices into the lists of the state.\<close>

type_synonym sid = nat
type_synonym tid = nat

text \<open>
  The Python exceptions that occur in \<open>src/hoodproxy/types.py\<close>: the plain
  \<open>Exception\<close> raised by \<open>run\<close> and \<open>stop\<close>, the \<open>RuntimeError\<close> of
  \<open>Thread.join\<close> and \<open>Thread.start\<close>, the \<open>AttributeError\<close> of reading an attribute
  that \<open>__init__\<close> never set, the \<open>OverflowError\<close> of a port outside 0..65535, and
  \<open>OSError\<close> with its subclasses (connection refused, reset, address in use).
\<close>

datatype py_exc =
    Exception string
  | RuntimeError string
  | AttributeError string
  | OverflowError string
  | OSError string

section \<open>Lemma collections\<close>

named_theorems sock_simps "equations of the socket primitives for concrete cases"
named_theorems inv_defs "definitions of the invariants of the proxy"

section \<open>Unique references\<close>

text \<open>A multiset of references in which nothing is referenced twice.\<close>

definition unique_refs :: "'a multiset \<Rightarrow> bool" where
  "unique_refs M \<longleftrightarrow> (\<forall>x. count M x \<le> 1)"

section \<open>Lists\<close>

text \<open>What is read from the front of a buffer and what remains make up the buffer.\<close>

lemma take_drop_split [simp]: "take k xs @ drop k xs @ ys = xs @ ys"
  by (metis append.assoc append_take_drop_id)

text \<open>Keeping only a prefix of a chunk keeps the stream a subsequence.\<close>

lemma subseq_append_right: "subseq xs ys \<Longrightarrow> subseq (xs @ zs) (ys @ zs)"
  by (metis list_emb_append_mono subseq_order.order_refl)

lemma subseq_take_middle: "subseq (xs @ take k ys @ zs) (xs @ ys @ zs)"
proof -
  have "subseq (take k ys) ys"
    by (rule prefix_imp_subseq) (rule take_is_prefix)
  then have "subseq (take k ys @ zs) (ys @ zs)"
    by (rule subseq_append_right)
  then show ?thesis
    by (simp add: subseq_append')
qed

lemma subseq_appendD: "subseq (xs @ ys) zs \<Longrightarrow> subseq xs zs"
  by (rule subseq_order.order_trans [OF prefix_imp_subseq]) simp_all

lemma prefix_update_append: "L < length xs \<Longrightarrow> prefix (xs ! L) (xs[M := xs ! M @ ys] ! L)"
  by (cases "L = M") simp_all

lemma nth_append_two [simp]:
  "(xs @ [a, b]) ! length xs = a" "(xs @ [a, b]) ! Suc (length xs) = b"
  by (simp_all add: nth_append)

section \<open>Multisets of references\<close>

text \<open>
  The ownership invariant of the proxy counts the references to each socket in a
  multiset summed over a list of components; updating one component replaces its
  contribution.
\<close>

lemma sum_list_map_update:
  fixes f :: "'a \<Rightarrow> 'b multiset"
  assumes "i < length xs"
  shows "sum_list (map f (xs[i := x])) + f (xs ! i) = sum_list (map f xs) + f x"
  using assms
proof (induction xs arbitrary: i)
  case Nil
  then show ?case by simp
next
  case (Cons y ys)
  then show ?case
    by (cases i) (simp_all add: add.assoc add.left_commute)
qed

lemma mset_le_sum_list_map:
  fixes f :: "'a \<Rightarrow> 'b multiset"
  shows "i < length xs \<Longrightarrow> f (xs ! i) \<subseteq># sum_list (map f xs)"
proof (induction xs arbitrary: i)
  case Nil
  then show ?case by simp
next
  case (Cons y ys)
  then show ?case
    by (cases i) (auto intro: subset_mset.order_trans [OF _ mset_subset_eq_add_right])
qed

lemma unique_refs_mono: "M \<subseteq># N \<Longrightarrow> unique_refs N \<Longrightarrow> unique_refs M"
  by (auto simp: unique_refs_def subseteq_mset_def intro: order_trans)

lemma unique_refs_add [simp]:
  "unique_refs (add_mset x M) \<longleftrightarrow> x \<notin># M \<and> unique_refs M"
proof
  assume u: "unique_refs (add_mset x M)"
  then have "count (add_mset x M) x \<le> 1"
    unfolding unique_refs_def by blast
  then have "x \<notin># M"
    by (simp add: not_in_iff)
  moreover have "unique_refs M"
    using unique_refs_mono [of M "add_mset x M"] u by simp
  ultimately show "x \<notin># M \<and> unique_refs M" ..
next
  assume "x \<notin># M \<and> unique_refs M"
  then show "unique_refs (add_mset x M)"
    by (auto simp: unique_refs_def not_in_iff)
qed

lemma unique_refs_disjoint:
  assumes "unique_refs (M + N)" and "x \<in># M"
  shows "x \<notin># N"
proof -
  have "count (M + N) x \<le> 1"
    using assms(1) unfolding unique_refs_def by blast
  moreover have "0 < count M x"
    using assms(2) by simp
  ultimately have "count N x = 0"
    by (simp only: count_union)
  then show ?thesis
    by (simp add: not_in_iff)
qed

lemma unique_refs_empty [simp]: "unique_refs {#}"
  by (simp add: unique_refs_def)

lemma unique_refs_mset [simp]: "unique_refs (mset xs) \<longleftrightarrow> distinct xs"
  by (induction xs) simp_all

lemma unique_refs_right: "unique_refs (M + N) \<Longrightarrow> unique_refs N"
  by (rule unique_refs_mono [of N "M + N"]) simp_all

end
