(* ===== verification/Socket.thy ===== *)
theory Socket
  imports Prelude
begin

text \<open>
  The operating system's TCP sockets as the proxy uses them through Python's
  \<open>socket\<close> module: a connected socket is a receive buffer fed by the peer and a
  send history handed to the network; a listening socket is a port with a queue of
  connections waiting for \<open>accept\<close>. The operations are the calls of
  \<open>src/hoodproxy/types.py\<close>: \<open>recv(1024)\<close> (line 89), \<open>send(msg)\<close> (line 92) and
  \<open>accept()\<close> (line 70), with the choices the kernel makes (how many bytes a
  \<open>recv\<close> returns, how many a \<open>send\<close> accepts) as explicit parameters, a blocked
  call as \<open>None\<close> and a raised exception as \<open>Inl\<close>.
\<close>

section \<open>State\<close>

text \<open>
  One end of a TCP connection, as seen from the proxy.
  \<^item> \<open>rx\<close>: bytes the peer has sent that \<open>recv\<close> has not returned yet;
  \<^item> \<open>rx_total\<close>: every byte the peer has sent on the connection (its history);
  \<^item> \<open>rx_eof\<close>: the peer has shut down its sending side;
  \<^item> \<open>tx\<close>: every byte \<open>send\<close> has handed to the kernel, in order, which is what the
    peer receives;
  \<^item> \<open>reset\<close>: the connection was reset, so \<open>recv\<close> and \<open>send\<close> raise.
\<close>

record sock =
  rx :: bytes
  rx_total :: bytes
  rx_eof :: bool
  tx :: bytes
  reset :: bool

record lsock =
  lport :: int
  backlog :: nat
  pending :: "sid list"

record os_state =
  socks :: "sock list"
  lsocks :: "lsock list"
  bound :: "int list"
  local_ips :: "string list"

definition new_sock :: sock where
  "new_sock = \<lparr>rx = [], rx_total = [], rx_eof = False, tx = [], reset = False\<rparr>"

section \<open>Receiving and sending\<close>

text \<open>
  \<open>sock.recv(bufsize)\<close> on a blocking TCP socket: raises on a reset connection;
  returns \<open>b''\<close> once the peer has closed and everything was read; blocks while
  the buffer is empty and the peer is open; otherwise returns between 1 and
  \<open>bufsize\<close> bytes from the front of the buffer, \<open>k\<close> of them, chosen by the kernel.
  A \<open>k\<close> outside that range is not a possible outcome (\<open>None\<close>).
\<close>

definition sock_recv :: "nat \<Rightarrow> nat \<Rightarrow> sock \<Rightarrow> (py_exc + bytes \<times> sock) option" where
  "sock_recv bufsize k so =
     (if reset so then Some (Inl (OSError ''Connection reset by peer''))
      else if rx so = [] then (if rx_eof so then Some (Inr ([], so)) else None)
      else if 0 < k \<and> k \<le> min bufsize (length (rx so))
        then Some (Inr (take k (rx so), so\<lparr>rx := drop k (rx so)\<rparr>))
      else None)"

text \<open>
  \<open>sock.send(msg)\<close>: raises on a reset connection; \<open>send(b'')\<close> returns 0; otherwise
  the kernel takes between 1 and \<open>len(msg)\<close> bytes from the front of \<open>msg\<close> and
  \<open>send\<close> returns how many. Unlike \<open>sendall\<close>, the rest is the caller's to resend.
\<close>

definition sock_send :: "nat \<Rightarrow> bytes \<Rightarrow> sock \<Rightarrow> (py_exc + nat \<times> sock) option" where
  "sock_send k msg so =
     (if reset so then Some (Inl (OSError ''Broken pipe''))
      else if msg = [] then Some (Inr (0, so))
      else if 0 < k \<and> k \<le> length msg then Some (Inr (k, so\<lparr>tx := tx so @ take k msg\<rparr>))
      else None)"

section \<open>Listening sockets\<close>

text \<open>
  \<open>listener.accept()\<close>: blocks while no connection is pending, otherwise takes the
  oldest pending connection off the queue.
\<close>

definition sock_accept :: "nat \<Rightarrow> os_state \<Rightarrow> (sid \<times> os_state) option" where
  "sock_accept l st =
     (case pending (lsocks st ! l) of
        [] \<Rightarrow> None
      | c # cs \<Rightarrow> Some (c, st\<lparr>lsocks := (lsocks st)[l := (lsocks st ! l)\<lparr>pending := cs\<rparr>]\<rparr>))"

text \<open>
  The port the kernel gives a socket bound to port 0: the next one above every port
  in use, in the ephemeral range from 32768.
\<close>

definition fresh_port :: "int list \<Rightarrow> int" where
  "fresh_port ps = fold max ps 32767 + 1"

section \<open>The peers\<close>

text \<open>
  The clients and the destination are the environment: a client connects to a
  listening socket whose queue is below its backlog; a peer sends bytes, shuts down
  its sending side, or resets the connection.
\<close>

definition client_connect :: "nat \<Rightarrow> os_state \<Rightarrow> os_state option" where
  "client_connect l st =
     (if l < length (lsocks st) \<and> length (pending (lsocks st ! l)) < backlog (lsocks st ! l)
      then Some (st\<lparr>socks := socks st @ [new_sock],
                    lsocks := (lsocks st)[l := (lsocks st ! l)
                                \<lparr>pending := pending (lsocks st ! l) @ [length (socks st)]\<rparr>]\<rparr>)
      else None)"

definition peer_send :: "bytes \<Rightarrow> sock \<Rightarrow> sock option" where
  "peer_send bs so =
     (if rx_eof so \<or> reset so then None
      else Some (so\<lparr>rx := rx so @ bs, rx_total := rx_total so @ bs\<rparr>))"

definition peer_close :: "sock \<Rightarrow> sock" where
  "peer_close so = so\<lparr>rx_eof := True\<rparr>"

definition peer_reset :: "sock \<Rightarrow> sock" where
  "peer_reset so = so\<lparr>reset := True\<rparr>"

section \<open>Properties of the primitives\<close>

lemma sock_recv_Inr:
  assumes "sock_recv n k so = Some (Inr (msg, so'))"
  shows "msg @ rx so' = rx so" and "rx_total so' = rx_total so" and "tx so' = tx so"
    and "length msg \<le> n \<or> msg = []" and "rx_eof so' = rx_eof so" and "reset so' = reset so"
  using assms by (auto simp: sock_recv_def split: if_splits)

lemma sock_send_Inr:
  assumes "sock_send k msg so = Some (Inr (m, so'))"
  shows "tx so' = tx so @ take m msg" and "rx so' = rx so" and "rx_total so' = rx_total so"
    and "m \<le> length msg" and "rx_eof so' = rx_eof so" and "reset so' = reset so"
  using assms by (auto simp: sock_send_def split: if_splits)

lemma sock_send_whole:
  "\<not> reset so \<Longrightarrow> msg \<noteq> [] \<Longrightarrow>
   sock_send (length msg) msg so = Some (Inr (length msg, so\<lparr>tx := tx so @ msg\<rparr>))"
  by (simp add: sock_send_def)

lemma sock_send_empty [sock_simps]:
  "\<not> reset so \<Longrightarrow> sock_send k [] so = Some (Inr (0, so))"
  by (simp add: sock_send_def)

lemma sock_recv_eof [sock_simps]:
  "\<not> reset so \<Longrightarrow> rx so = [] \<Longrightarrow> rx_eof so \<Longrightarrow> sock_recv n k so = Some (Inr ([], so))"
  by (simp add: sock_recv_def)

lemma sock_recv_blocks:
  "\<not> reset so \<Longrightarrow> rx so = [] \<Longrightarrow> \<not> rx_eof so \<Longrightarrow> sock_recv n k so = None"
  by (simp add: sock_recv_def)

lemma fold_max_ge: "(p::int) \<le> a \<or> p \<in> set ps \<Longrightarrow> p \<le> fold max ps a"
  by (induction ps arbitrary: a) (auto simp: le_max_iff_disj)

lemma fresh_port_above: "p \<in> set ps \<Longrightarrow> p < fresh_port ps"
  using fold_max_ge [of p 32767 ps] by (simp add: fresh_port_def)

lemma fresh_port_fresh: "fresh_port ps \<notin> set ps"
  using fresh_port_above by blast

end
