(* ===== verification/Address.thy ===== *)
theory Address
  imports Socket
begin

text \<open>
  The two dataclasses at the top of \<open>src/hoodproxy/types.py\<close>: \<open>IPV4Address\<close>
  (an IP string and a port, printed as \<open>ip:port\<close>, able to open a listening socket)
  and \<open>IPV4Target\<close> (a wrapped address, able to open an outbound connection). The
  socket operations act on the operating-system model of \<open>Socket\<close>. The theory
  proves that the printed form determines the address (a parser recovers it), and
  gives the state after a successful \<open>listen_tcp\<close> or \<open>connect_tcp\<close> that the
  proxy's proofs use.
\<close>

section \<open>The dataclasses\<close>

record IPV4Address =
  ip :: string
  port :: int

record IPV4Target =
  address :: IPV4Address

section \<open>Printing: \<open>IPV4Address.__repr__\<close>\<close>

text \<open>
  \<open>f"{self.ip}:{self.port}"\<close>: the IP string, a colon, and Python's \<open>str\<close> of the
  port, an unbounded integer in decimal with a minus sign when negative.
\<close>

fun dec_digits :: "nat \<Rightarrow> string" where
  "dec_digits n =
     (if n < 10 then [char_of (48 + n)] else dec_digits (n div 10) @ [char_of (48 + n mod 10)])"

declare dec_digits.simps [simp del]

definition str_int :: "int \<Rightarrow> string" where
  "str_int i = (if i < 0 then CHR ''-'' # dec_digits (nat (- i)) else dec_digits (nat i))"

definition addr_repr :: "IPV4Address \<Rightarrow> string" where
  "addr_repr a = ip a @ CHR '':'' # str_int (port a)"

section \<open>Reading a printed address back\<close>

text \<open>
  The inverse of the printer, used only to state that log lines identify endpoints:
  the port is the text after the last colon, read as a decimal integer.
\<close>

definition digit_val :: "char \<Rightarrow> nat option" where
  "digit_val c = (let n = of_char c :: nat in if 48 \<le> n \<and> n < 58 then Some (n - 48) else None)"

fun parse_dec :: "nat \<Rightarrow> string \<Rightarrow> nat option" where
  "parse_dec acc [] = Some acc"
| "parse_dec acc (c # cs) =
     (case digit_val c of None \<Rightarrow> None | Some d \<Rightarrow> parse_dec (10 * acc + d) cs)"

definition parse_int :: "string \<Rightarrow> int option" where
  "parse_int s =
     (case s of
        [] \<Rightarrow> None
      | c # cs \<Rightarrow>
          if c = CHR ''-'' then (if cs = [] then None else map_option (\<lambda>n. - int n) (parse_dec 0 cs))
          else map_option int (parse_dec 0 s))"

definition addr_parse :: "string \<Rightarrow> IPV4Address option" where
  "addr_parse s =
     (let r = rev s; p = takeWhile (\<lambda>c. c \<noteq> CHR '':'') r; rest = dropWhile (\<lambda>c. c \<noteq> CHR '':'') r
      in if rest = [] then None
         else map_option (\<lambda>n. \<lparr>ip = rev (tl rest), port = n\<rparr>) (parse_int (rev p)))"

section \<open>Opening sockets\<close>

text \<open>
  \<open>IPV4Address.listen_tcp(listen_backlog=100)\<close>: \<open>socket()\<close>, \<open>bind((ip, port))\<close>,
  \<open>listen(backlog)\<close>. CPython's \<open>bind\<close> resolves the host first (an address that is
  not local fails with \<open>OSError\<close>), then rejects a port outside 0..65535 with
  \<open>OverflowError\<close>, then the kernel refuses a port in use. Port 0 asks the kernel
  for a free port; when the ephemeral range is used up, that bind fails with
  \<open>EADDRINUSE\<close> too. The result is the index of the new listening socket.
\<close>

definition host_ok :: "string \<Rightarrow> os_state \<Rightarrow> bool" where
  "host_ok h st \<longleftrightarrow> h = [] \<or> h = ''0.0.0.0'' \<or> h \<in> set (local_ips st)"

definition listen_tcp :: "IPV4Address \<Rightarrow> nat \<Rightarrow> os_state \<Rightarrow> py_exc + nat \<times> os_state" where
  "listen_tcp a listen_backlog st =
     (if \<not> host_ok (ip a) st then Inl (OSError ''Cannot assign requested address'')
      else if port a < 0 \<or> 65535 < port a then Inl (OverflowError ''bind(): port must be 0-65535.'')
      else
        let p = (if port a = 0 then fresh_port (bound st) else port a) in
        if p \<in> set (bound st) \<or> 65535 < p then Inl (OSError ''Address already in use'')
        else Inr (length (lsocks st),
                  st\<lparr>bound := p # bound st,
                     lsocks := lsocks st @ [\<lparr>lport = p, backlog = listen_backlog, pending = []\<rparr>]\<rparr>))"

text \<open>
  \<open>IPV4Target.connect_tcp()\<close>: \<open>socket()\<close>, \<open>connect((ip, port))\<close>. Whether the
  destination accepts is the environment's choice \<open>up\<close> (a refused, unreachable or
  unresolvable destination raises \<open>OSError\<close>); a port outside 0..65535 raises
  \<open>OverflowError\<close> first. The result is the index of the new connected socket.
\<close>

definition connect_tcp :: "IPV4Target \<Rightarrow> bool \<Rightarrow> os_state \<Rightarrow> py_exc + sid \<times> os_state" where
  "connect_tcp t up st =
     (if port (address t) < 0 \<or> 65535 < port (address t)
        then Inl (OverflowError ''connect(): port must be 0-65535.'')
      else if \<not> up then Inl (OSError ''Connection refused'')
      else Inr (length (socks st), st\<lparr>socks := socks st @ [new_sock]\<rparr>))"

section \<open>Printing and parsing\<close>

lemma digit_val_char_of: "d < 10 \<Longrightarrow> digit_val (char_of (48 + d)) = Some d"
proof -
  assume "d < 10"
  then have "of_char (char_of (48 + d) :: char) = (48 + d :: nat)"
    by (simp add: of_char_of)
  with \<open>d < 10\<close> show ?thesis
    by (simp add: digit_val_def)
qed

lemma parse_dec_append:
  "parse_dec acc (xs @ ys) = (case parse_dec acc xs of None \<Rightarrow> None | Some a \<Rightarrow> parse_dec a ys)"
  by (induction acc xs rule: parse_dec.induct) (auto split: option.splits)

lemma parse_dec_dec_digits: "parse_dec 0 (dec_digits n) = Some n"
proof (induction n rule: dec_digits.induct)
  case (1 n)
  show ?case
  proof (cases "n < 10")
    case True
    then show ?thesis
      by (simp add: dec_digits.simps [of n] digit_val_char_of)
  next
    case False
    then have "parse_dec 0 (dec_digits (n div 10)) = Some (n div 10)"
      using "1.IH" by simp
    with False show ?thesis
      by (simp add: dec_digits.simps [of n] parse_dec_append digit_val_char_of)
  qed
qed

lemma digit_char_ne:
  assumes "(d::nat) < 10" and "digit_val c = None"
  shows "char_of (48 + d) \<noteq> c" and "c \<noteq> char_of (48 + d)"
  using assms digit_val_char_of [of d] by auto

lemma dec_digits_not_colon: "CHR '':'' \<notin> set (dec_digits n)"
proof (induction n rule: dec_digits.induct)
  case (1 n)
  have "digit_val (CHR '':'') = None"
    by (simp add: digit_val_def)
  with "1.IH" show ?case
    by (auto simp: dec_digits.simps [of n] digit_char_ne)
qed

lemma dec_digits_not_minus: "dec_digits n \<noteq> [] \<and> hd (dec_digits n) \<noteq> CHR ''-''"
proof (induction n rule: dec_digits.induct)
  case (1 n)
  have "digit_val (CHR ''-'') = None"
    by (simp add: digit_val_def)
  with "1.IH" show ?case
    by (auto simp: dec_digits.simps [of n] digit_char_ne)
qed

lemma parse_int_dec_digits:
  "parse_int (dec_digits n) = Some (int n)"
proof -
  obtain c cs where dc: "dec_digits n = c # cs" and "c \<noteq> CHR ''-''"
    using dec_digits_not_minus [of n] by (cases "dec_digits n") auto
  then show ?thesis
    using parse_dec_dec_digits [of n] by (simp add: parse_int_def)
qed

lemma parse_int_str_int: "parse_int (str_int i) = Some i"
proof (cases "i < 0")
  case True
  have "dec_digits (nat (- i)) \<noteq> []"
    using dec_digits_not_minus by blast
  with True show ?thesis
    by (simp add: parse_int_def str_int_def parse_dec_dec_digits)
next
  case False
  then show ?thesis
    by (simp add: str_int_def parse_int_dec_digits)
qed

lemma str_int_not_colon: "CHR '':'' \<notin> set (str_int i)"
  by (simp add: str_int_def dec_digits_not_colon)


text \<open>
  C21: the printed form of an address determines it: reading back the text that
  \<open>IPV4Address.__repr__\<close> prints gives the same IP string and port, for every IP
  string (colons included) and every integer port.
\<close>

theorem addr_parse_repr: "addr_parse (addr_repr a) = Some a"
proof -
  let ?P = "\<lambda>c. c \<noteq> CHR '':''"
  have np: "\<And>x. x \<in> set (rev (str_int (port a))) \<Longrightarrow> ?P x"
    using str_int_not_colon by auto
  have "rev (addr_repr a) = rev (str_int (port a)) @ CHR '':'' # rev (ip a)"
    by (simp add: addr_repr_def)
  moreover have "takeWhile ?P (rev (str_int (port a)) @ CHR '':'' # rev (ip a)) = rev (str_int (port a))"
    using np by (subst takeWhile_append2) auto
  moreover have "dropWhile ?P (rev (str_int (port a)) @ CHR '':'' # rev (ip a)) = CHR '':'' # rev (ip a)"
    using np by (subst dropWhile_append2) auto
  ultimately show ?thesis
    by (simp add: addr_parse_def Let_def parse_int_str_int)
qed

corollary addr_repr_inj: "addr_repr a = addr_repr b \<Longrightarrow> a = b"
  by (metis addr_parse_repr option.inject)

section \<open>Facts about \<open>listen_tcp\<close> and \<open>connect_tcp\<close>\<close>

lemma listen_tcp_Inr:
  assumes "listen_tcp a n st = Inr (l, st')"
  shows "l = length (lsocks st)" and "socks st' = socks st" and "local_ips st' = local_ips st"
    and "set (bound st) \<subseteq> set (bound st')" and "length (lsocks st') = Suc (length (lsocks st))"
    and "\<forall>i < length (lsocks st). lsocks st' ! i = lsocks st ! i"
    and "lsocks st' ! l = \<lparr>lport = (if port a = 0 then fresh_port (bound st) else port a),
                            backlog = n, pending = []\<rparr>"
    and "port a \<noteq> 0 \<Longrightarrow> port a \<in> set (bound st')"
  using assms by (auto simp: listen_tcp_def Let_def nth_append split: if_splits)

lemma connect_tcp_Inr:
  assumes "connect_tcp t up st = Inr (c, st')"
  shows "c = length (socks st)" and "st' = st\<lparr>socks := socks st @ [new_sock]\<rparr>"
  using assms by (auto simp: connect_tcp_def split: if_splits)

end
