(* ===== verification/Forwarder.thy ===== *)
theory Forwarder
  imports Socket
begin

text \<open>
  \<open>TCPProxy.forward_traffic\<close> (\<open>src/hoodproxy/types.py\<close>, lines 84-92): the loop
  one forwarding thread runs, copying what \<open>recv(1024)\<close> returns from its source
  socket to its destination socket with \<open>send\<close> until it sees the stop flag at the
  top of the loop. The loop body is cut at the points where another thread can run
  (the flag test, the blocking \<open>recv\<close>, the blocking \<open>send\<close>), so a thread is a
  program counter and the loop is one step function over the sockets. The theory
  proves the per-step facts the proxy's invariants are built from: what a step
  reads, what it writes, and that the bytes in flight are never reordered.
\<close>

section \<open>Thread state\<close>

text \<open>
  The program counter of a forwarding thread:
  \<^item> \<open>F_New\<close>: the \<open>Thread\<close> object exists but \<open>start()\<close> was not called;
  \<^item> \<open>F_Top\<close>: at \<open>while not self.should_stop\<close> (line 88);
  \<^item> \<open>F_Recv\<close>: in \<open>src_socket.recv(1024)\<close> (line 89);
  \<^item> \<open>F_Send msg\<close>: holding the chunk \<open>msg\<close>, in \<open>dest_socket.send(msg)\<close> (line 92);
  \<^item> \<open>F_Done\<close>: the loop ended and the thread returned;
  \<^item> \<open>F_Crashed e\<close>: \<open>recv\<close> or \<open>send\<close> raised \<open>e\<close>, which nothing in the thread
    catches, so the thread ended.
\<close>

datatype fwd_pc = F_New | F_Top | F_Recv | F_Send bytes | F_Done | F_Crashed py_exc

text \<open>
  A forwarding thread: the arguments it was created with (the socket it reads and
  the socket it writes; the two address labels only feed the log lines) and its
  program counter.
\<close>

record fwd =
  fsrc :: sid
  fdst :: sid
  fpc :: fwd_pc

text \<open>The buffer size of \<open>src_socket.recv(1024)\<close>.\<close>

definition recv_bufsize :: nat where
  "recv_bufsize = 1024"

section \<open>One step of the loop\<close>

text \<open>
  One step of thread \<open>f\<close>, given the value of \<open>self.should_stop\<close> it reads and the
  kernel's choice \<open>k\<close> (bytes returned by \<open>recv\<close> or taken by \<open>send\<close>). The result
  is the new thread, the new sockets and the chunks printed by line 91 (the
  \<open>print\<close> runs for every non-empty chunk). \<open>None\<close>: the thread cannot move (not
  started, finished, or blocked in \<open>recv\<close>). The value \<open>send\<close> returns is
  discarded, as in the source.
\<close>

definition forward_step :: "bool \<Rightarrow> nat \<Rightarrow> fwd \<Rightarrow> sock list \<Rightarrow> (fwd \<times> sock list \<times> bytes list) option" where
  "forward_step stop k f ss =
     (case fpc f of
        F_Top \<Rightarrow> Some (f\<lparr>fpc := (if stop then F_Done else F_Recv)\<rparr>, ss, [])
      | F_Recv \<Rightarrow>
          (case sock_recv recv_bufsize k (ss ! fsrc f) of
             None \<Rightarrow> None
           | Some (Inl e) \<Rightarrow> Some (f\<lparr>fpc := F_Crashed e\<rparr>, ss, [])
           | Some (Inr (msg, so)) \<Rightarrow>
               Some (f\<lparr>fpc := F_Send msg\<rparr>, ss[fsrc f := so], if msg \<noteq> [] then [msg] else []))
      | F_Send msg \<Rightarrow>
          (case sock_send k msg (ss ! fdst f) of
             None \<Rightarrow> None
           | Some (Inl e) \<Rightarrow> Some (f\<lparr>fpc := F_Crashed e\<rparr>, ss, [])
           | Some (Inr (_, so)) \<Rightarrow> Some (f\<lparr>fpc := F_Top\<rparr>, ss[fdst f := so], []))
      | _ \<Rightarrow> None)"

text \<open>The chunk a thread holds between its \<open>recv\<close> and its \<open>send\<close>.\<close>

fun held :: "fwd_pc \<Rightarrow> bytes" where
  "held (F_Send msg) = msg"
| "held _ = []"

fun finished :: "fwd_pc \<Rightarrow> bool" where
  "finished F_Done = True"
| "finished (F_Crashed _) = True"
| "finished _ = False"

fun started :: "fwd_pc \<Rightarrow> bool" where
  "started F_New = False"
| "started _ = True"

fun crashed :: "fwd_pc \<Rightarrow> bool" where
  "crashed (F_Crashed _) = True"
| "crashed _ = False"

text \<open>
  The relay property of one thread over the sockets: what was sent to the
  destination, then the chunk in hand, then what is still unread at the source,
  is a subsequence of everything the source's peer sent (\<open>relay_sub\<close>), or all of
  it exactly (\<open>relay_exact\<close>).
\<close>

definition relay_stream :: "fwd \<Rightarrow> sock list \<Rightarrow> bytes" where
  "relay_stream f ss = tx (ss ! fdst f) @ held (fpc f) @ rx (ss ! fsrc f)"

definition relay_sub :: "fwd \<Rightarrow> sock list \<Rightarrow> bool" where
  "relay_sub f ss \<longleftrightarrow> subseq (relay_stream f ss) (rx_total (ss ! fsrc f))"

definition relay_exact :: "fwd \<Rightarrow> sock list \<Rightarrow> bool" where
  "relay_exact f ss \<longleftrightarrow> relay_stream f ss = rx_total (ss ! fsrc f)"

text \<open>A send step takes the whole chunk (what \<open>sendall\<close> would do).\<close>

definition whole_send :: "fwd \<Rightarrow> nat \<Rightarrow> bool" where
  "whole_send f k \<longleftrightarrow> (case fpc f of F_Send msg \<Rightarrow> k = length msg | _ \<Rightarrow> True)"

section \<open>What one step does\<close>

lemma forward_step_cases:
  assumes "forward_step stop k f ss = Some (f', ss', out)"
  obtains (top) "fpc f = F_Top" "fpc f' = (if stop then F_Done else F_Recv)" "ss' = ss" "out = []"
    "fsrc f' = fsrc f" "fdst f' = fdst f"
  | (recv) msg so where "fpc f = F_Recv" "sock_recv recv_bufsize k (ss ! fsrc f) = Some (Inr (msg, so))"
      "fpc f' = F_Send msg" "ss' = ss[fsrc f := so]" "out = (if msg \<noteq> [] then [msg] else [])"
      "fsrc f' = fsrc f" "fdst f' = fdst f"
  | (send) msg m so where "fpc f = F_Send msg" "sock_send k msg (ss ! fdst f) = Some (Inr (m, so))"
      "fpc f' = F_Top" "ss' = ss[fdst f := so]" "out = []" "fsrc f' = fsrc f" "fdst f' = fdst f"
  | (crash) e where "fpc f' = F_Crashed e" "ss' = ss" "out = []" "fsrc f' = fsrc f" "fdst f' = fdst f"
      "fpc f = F_Recv \<or> (\<exists>msg. fpc f = F_Send msg)"
proof (cases "fpc f")
  case F_Top
  with assms show ?thesis
    by (intro top) (auto simp: forward_step_def)
next
  case F_Recv
  show ?thesis
  proof (cases "sock_recv recv_bufsize k (ss ! fsrc f)")
    case None
    with assms F_Recv show ?thesis by (simp add: forward_step_def)
  next
    case (Some r)
    with assms F_Recv show ?thesis
      by (cases r) (auto simp: forward_step_def intro: recv crash)
  qed
next
  case (F_Send msg)
  show ?thesis
  proof (cases "sock_send k msg (ss ! fdst f)")
    case None
    with assms F_Send show ?thesis by (simp add: forward_step_def)
  next
    case (Some r)
    with assms F_Send show ?thesis
      by (cases r) (auto simp: forward_step_def intro: send crash)
  qed
qed (use assms in \<open>simp_all add: forward_step_def\<close>)

lemma forward_step_length: "forward_step stop k f ss = Some (f', ss', out) \<Longrightarrow> length ss' = length ss"
  by (erule forward_step_cases) auto

lemma forward_step_started:
  "forward_step stop k f ss = Some r \<Longrightarrow> started (fpc f) \<and> \<not> finished (fpc f)"
  by (cases "fpc f") (auto simp: forward_step_def)

lemma forward_step_other:
  assumes "forward_step stop k f ss = Some (f', ss', out)"
    and "i \<noteq> fsrc f" and "i \<noteq> fdst f"
  shows "ss' ! i = ss ! i"
  using assms by (elim forward_step_cases) auto

text \<open>Every other socket keeps its receive side; only the source's changes.\<close>

lemma forward_step_rx_total:
  "forward_step stop k f ss = Some (f', ss', out) \<Longrightarrow> i < length ss \<Longrightarrow>
   rx_total (ss' ! i) = rx_total (ss ! i)"
  by (erule forward_step_cases; cases "i = fsrc f"; cases "i = fdst f")
     (auto dest: sock_recv_Inr sock_send_Inr)

lemma forward_step_rx:
  "forward_step stop k f ss = Some (f', ss', out) \<Longrightarrow> i < length ss \<Longrightarrow> i \<noteq> fsrc f \<Longrightarrow>
   rx (ss' ! i) = rx (ss ! i)"
  by (erule forward_step_cases; cases "i = fdst f") (auto dest: sock_send_Inr)

lemma forward_step_tx:
  "forward_step stop k f ss = Some (f', ss', out) \<Longrightarrow> i < length ss \<Longrightarrow> i \<noteq> fdst f \<Longrightarrow>
   tx (ss' ! i) = tx (ss ! i)"
  by (erule forward_step_cases; cases "i = fsrc f") (auto dest: sock_recv_Inr)

lemma forward_step_flags:
  "forward_step stop k f ss = Some (f', ss', out) \<Longrightarrow> i < length ss \<Longrightarrow>
   rx_eof (ss' ! i) = rx_eof (ss ! i) \<and> reset (ss' ! i) = reset (ss ! i)"
  by (erule forward_step_cases; cases "i = fsrc f"; cases "i = fdst f")
     (auto dest: sock_recv_Inr sock_send_Inr)

section \<open>The relay property across one step of the thread\<close>

text \<open>
  The thread's own step keeps the relay stream a subsequence of what the source's
  peer sent: \<open>recv\<close> moves bytes from the buffer into the hand, \<open>send\<close> moves a
  prefix of the hand to the destination and drops the rest, a crash drops the hand.
\<close>

lemma forward_step_relay_sub:
  assumes step: "forward_step stop k f ss = Some (f', ss', out)"
    and ne: "fsrc f \<noteq> fdst f" and rel: "relay_sub f ss"
    and idx: "fsrc f < length ss" "fdst f < length ss"
  shows "relay_sub f' ss'"
  using step
proof (cases rule: forward_step_cases)
  case (recv msg so)
  then have "msg @ rx so = rx (ss ! fsrc f)" "rx_total so = rx_total (ss ! fsrc f)"
    by (auto dest: sock_recv_Inr)
  with recv ne rel idx show ?thesis
    by (simp add: relay_sub_def relay_stream_def)
next
  case (send msg m so)
  then have "tx so = tx (ss ! fdst f) @ take m msg"
    by (auto dest: sock_send_Inr)
  with send ne rel idx show ?thesis
    by (auto simp: relay_sub_def relay_stream_def
             intro: subseq_order.order_trans [OF subseq_take_middle])
next
  case (crash e)
  have "subseq (tx (ss ! fdst f) @ rx (ss ! fsrc f)) (relay_stream f ss)"
    using subseq_take_middle [of "tx (ss ! fdst f)" 0] by (simp add: relay_stream_def)
  with crash rel show ?thesis
    by (auto simp: relay_sub_def relay_stream_def intro: subseq_order.order_trans)
qed (use rel in \<open>simp_all add: relay_sub_def relay_stream_def\<close>)

text \<open>
  With a \<open>send\<close> that takes the whole chunk, the thread's step keeps the stream
  exactly what the peer sent, unless the thread crashes.
\<close>

lemma forward_step_relay_exact:
  assumes step: "forward_step stop k f ss = Some (f', ss', out)"
    and ne: "fsrc f \<noteq> fdst f" and whole: "whole_send f k"
    and idx: "fsrc f < length ss" "fdst f < length ss"
    and rel: "relay_exact f ss" and ok: "\<not> crashed (fpc f')"
  shows "relay_exact f' ss'"
  using step
proof (cases rule: forward_step_cases)
  case (recv msg so)
  then have "msg @ rx so = rx (ss ! fsrc f)" "rx_total so = rx_total (ss ! fsrc f)"
    by (auto dest: sock_recv_Inr)
  with recv ne rel idx show ?thesis
    by (simp add: relay_exact_def relay_stream_def)
next
  case (send msg m so)
  with whole have "k = length msg"
    by (simp add: whole_send_def)
  with send have "tx so = tx (ss ! fdst f) @ msg"
    by (auto simp: sock_send_def split: if_splits)
  with send ne rel idx show ?thesis
    by (simp add: relay_exact_def relay_stream_def)
next
  case (crash e)
  with ok show ?thesis by simp
qed (use rel in \<open>simp_all add: relay_exact_def relay_stream_def\<close>)

text \<open>The chunk in hand is never longer than the \<open>recv\<close> buffer.\<close>

lemma forward_step_held_bound:
  assumes "forward_step stop k f ss = Some (f', ss', out)"
    and "length (held (fpc f)) \<le> recv_bufsize"
  shows "length (held (fpc f')) \<le> recv_bufsize"
  using assms(1)
proof (cases rule: forward_step_cases)
  case (recv msg so)
  then show ?thesis
    by (auto dest: sock_recv_Inr(4))
qed simp_all

end
