(* ===== verification/Proxy.thy ===== *)
theory Proxy
  imports Address Forwarder
begin

text \<open>
  \<open>TCPProxy\<close> (\<open>src/hoodproxy/types.py\<close>, lines 33-92) running in a process with
  its threads: the object's attributes, the Python list objects its
  \<open>proxy_threads\<close> attribute points to, the acceptance threads started by
  \<open>run\<close>, the forwarding threads they start, the caller's thread inside \<open>stop\<close>,
  and the operating system of \<open>Socket\<close>. A step of the system is one atomic
  action of one thread or of the environment; the threads interleave freely.
\<close>

section \<open>State\<close>

text \<open>
  The program counter of an acceptance thread (\<open>accept_connections\<close>, lines
  67-81). Line 76, \<open>self.proxy_threads += [t1, t2]\<close>, is two steps: the in-place
  extension of the list object the attribute points to, and the store of that
  object back into the attribute.
\<close>

datatype acc_pc =
    A_Top                 \<comment> \<open>line 68: \<open>while not self.should_stop\<close>\<close>
  | A_Accept              \<comment> \<open>line 70: in \<open>self.listener.accept()\<close>\<close>
  | A_Connect sid         \<comment> \<open>line 72: client accepted, in \<open>connect_tcp()\<close>\<close>
  | A_Spawn sid sid       \<comment> \<open>lines 74-75: create the two \<open>Thread\<close> objects\<close>
  | A_Extend tid tid      \<comment> \<open>line 76: load the list and extend it in place\<close>
  | A_Store nat tid tid   \<comment> \<open>line 76: store the list back into the attribute\<close>
  | A_Start1 tid tid      \<comment> \<open>line 77: \<open>t1.start()\<close>\<close>
  | A_Start2 tid          \<comment> \<open>line 78: \<open>t2.start()\<close>\<close>
  | A_Sleep               \<comment> \<open>lines 79-81: exception caught, \<open>time.sleep(.5)\<close>\<close>
  | A_Done                \<comment> \<open>the loop ended\<close>

text \<open>
  The thread that calls \<open>run\<close> and \<open>stop\<close>: idle, inside the loop
  \<open>for t in self.proxy_threads: t.join()\<close> of \<open>stop\<close> (list object \<open>L\<close>, next
  index \<open>i\<close>), or past that loop with \<open>n\<close> threads joined, before
  \<open>self.proxy_threads = []\<close>.
\<close>

datatype user_pc = U_Idle | U_Join nat nat | U_Reset nat nat

text \<open>
  The attributes of a \<open>TCPProxy\<close> object. An attribute that \<open>__init__\<close> does not
  set is \<open>None\<close> until \<open>run\<close> sets it; \<open>listener\<close> and \<open>listen_thread\<close> are
  indices of a listening socket and of an acceptance thread; \<open>proxy_threads\<close> is
  a reference to a list object.
\<close>

record TCPProxy =
  should_stop :: bool
  listen_addr :: IPV4Address
  dest_addr :: IPV4Target
  listener :: "nat option"
  proxy_threads :: "nat option"
  listen_thread :: "nat option"

text \<open>
  The running system: the proxy object, the heap of Python list objects holding
  thread indices, the acceptance and forwarding threads, the operating system, the
  chunks printed by line 91 (with the printing thread), and the caller's thread
  with the exception its last call raised.
\<close>

record sys = TCPProxy +
  list_heap :: "tid list list"
  acceptors :: "acc_pc list"
  fwds :: "fwd list"
  os :: os_state
  printed :: "(tid \<times> bytes) list"
  user :: user_pc
  last_exc :: "py_exc option"

text \<open>\<open>TCPProxy.__init__\<close> (lines 42-45), in a process whose OS state is \<open>st\<close>.\<close>

definition TCPProxy_init :: "IPV4Address \<Rightarrow> IPV4Target \<Rightarrow> os_state \<Rightarrow> sys" where
  "TCPProxy_init la d st =
     \<lparr>should_stop = False, listen_addr = la, dest_addr = d, listener = None,
      proxy_threads = None, listen_thread = None,
      list_heap = [], acceptors = [], fwds = [], os = st, printed = [], user = U_Idle, last_exc = None\<rparr>"

section \<open>\<open>run\<close> and \<open>stop\<close>\<close>

text \<open>
  \<open>TCPProxy.run\<close> (lines 47-56): raise if \<open>should_stop\<close> is set; clear it; open the
  listening socket with the default backlog of 100 (its exception propagates);
  point \<open>proxy_threads\<close> to a new empty list; start a new acceptance thread.
\<close>

definition run :: "sys \<Rightarrow> py_exc + sys" where
  "run s =
     (if should_stop s then Inl (Exception ''Cannot start proxy while it is already running'')
      else case listen_tcp (listen_addr s) 100 (os s) of
        Inl e \<Rightarrow> Inl e
      | Inr (l, st) \<Rightarrow>
          Inr (s\<lparr>should_stop := False, listener := Some l,
                 proxy_threads := Some (length (list_heap s)), list_heap := list_heap s @ [[]],
                 listen_thread := Some (length (acceptors s)), acceptors := acceptors s @ [A_Top],
                 os := st\<rparr>))"

text \<open>A call of \<open>run\<close>: an exception it raises is recorded for the caller.\<close>

definition run_call :: "sys \<Rightarrow> sys" where
  "run_call s = (case run s of Inl e \<Rightarrow> s\<lparr>last_exc := Some e\<rparr> | Inr s' \<Rightarrow> s'\<lparr>last_exc := None\<rparr>)"

text \<open>
  \<open>TCPProxy.stop\<close> (lines 58-65) up to its join loop: raise if \<open>should_stop\<close> is
  set; set it; then iterate over the list \<open>self.proxy_threads\<close> points to. Before
  any \<open>run\<close> that attribute does not exist, and reading it raises
  \<open>AttributeError\<close> after the flag was set.
\<close>

definition stop :: "sys \<Rightarrow> sys" where
  "stop s =
     (if should_stop s then s\<lparr>last_exc := Some (Exception ''Cannot stop already stopped proxy'')\<rparr>
      else case proxy_threads s of
        None \<Rightarrow> s\<lparr>should_stop := True,
                   last_exc := Some (AttributeError ''TCPProxy object has no attribute proxy_threads'')\<rparr>
      | Some L \<Rightarrow> s\<lparr>should_stop := True, user := U_Join L 0, last_exc := None\<rparr>)"

text \<open>
  One step of the rest of \<open>stop\<close>: \<open>t.join()\<close> on the next thread of the list
  (the list iterator reads the current length, so threads appended meanwhile are
  iterated too); \<open>join\<close> blocks until the thread has finished and raises
  \<open>RuntimeError\<close> on a thread never started. After the loop,
  \<open>self.proxy_threads = []\<close> and \<open>stop\<close> returns.
\<close>

definition stop_join_step :: "sys \<Rightarrow> sys option" where
  "stop_join_step s =
     (case user s of
        U_Idle \<Rightarrow> None
      | U_Join L i \<Rightarrow>
          if i < length (list_heap s ! L) then
            (let t = list_heap s ! L ! i in
             if \<not> started (fpc (fwds s ! t))
             then Some (s\<lparr>user := U_Idle,
                          last_exc := Some (RuntimeError ''cannot join thread before it is started'')\<rparr>)
             else if finished (fpc (fwds s ! t)) then Some (s\<lparr>user := U_Join L (Suc i)\<rparr>)
             else None)
          else Some (s\<lparr>user := U_Reset L i\<rparr>)
      | U_Reset L n \<Rightarrow>
          Some (s\<lparr>proxy_threads := Some (length (list_heap s)), list_heap := list_heap s @ [[]],
                  user := U_Idle, last_exc := None\<rparr>))"

section \<open>The acceptance loop\<close>

definition set_acc :: "nat \<Rightarrow> acc_pc \<Rightarrow> sys \<Rightarrow> sys" where
  "set_acc i pc s = s\<lparr>acceptors := (acceptors s)[i := pc]\<rparr>"

definition start_thread :: "tid \<Rightarrow> sys \<Rightarrow> sys" where
  "start_thread t s = s\<lparr>fwds := (fwds s)[t := (fwds s ! t)\<lparr>fpc := F_Top\<rparr>]\<rparr>"

text \<open>
  One step of acceptance thread \<open>i\<close> (\<open>accept_connections\<close>, lines 67-81).
  \<open>fail\<close> is the environment's choice that the call of this step raises: \<open>accept\<close>
  fails, the destination refuses, or \<open>start\<close> cannot start a thread. Every such
  exception, the \<open>RuntimeError\<close> of \<open>start\<close> on a thread already started, and
  the \<open>AttributeError\<close>s of attributes not yet set, is caught by
  \<open>except Exception\<close> and leads to the sleep. The first thread reads the client
  socket and writes the destination socket, the second the other way round.
\<close>

definition accept_step :: "nat \<Rightarrow> bool \<Rightarrow> sys \<Rightarrow> sys option" where
  "accept_step i fail s =
     (case acceptors s ! i of
        A_Top \<Rightarrow> Some (set_acc i (if should_stop s then A_Done else A_Accept) s)
      | A_Accept \<Rightarrow>
          if fail then Some (set_acc i A_Sleep s)
          else (case listener s of
                  None \<Rightarrow> Some (set_acc i A_Sleep s)
                | Some l \<Rightarrow>
                    (case sock_accept l (os s) of
                       None \<Rightarrow> None
                     | Some (c, st) \<Rightarrow> Some (set_acc i (A_Connect c) (s\<lparr>os := st\<rparr>))))
      | A_Connect c \<Rightarrow>
          (case connect_tcp (dest_addr s) (\<not> fail) (os s) of
             Inl _ \<Rightarrow> Some (set_acc i A_Sleep s)
           | Inr (sv, st) \<Rightarrow> Some (set_acc i (A_Spawn c sv) (s\<lparr>os := st\<rparr>)))
      | A_Spawn c sv \<Rightarrow>
          Some (set_acc i (A_Extend (length (fwds s)) (Suc (length (fwds s))))
                  (s\<lparr>fwds := fwds s @ [\<lparr>fsrc = c, fdst = sv, fpc = F_New\<rparr>,
                                       \<lparr>fsrc = sv, fdst = c, fpc = F_New\<rparr>]\<rparr>))
      | A_Extend t1 t2 \<Rightarrow>
          (case proxy_threads s of
             None \<Rightarrow> Some (set_acc i A_Sleep s)
           | Some L \<Rightarrow> Some (set_acc i (A_Store L t1 t2)
                              (s\<lparr>list_heap := (list_heap s)[L := list_heap s ! L @ [t1, t2]]\<rparr>)))
      | A_Store L t1 t2 \<Rightarrow> Some (set_acc i (A_Start1 t1 t2) (s\<lparr>proxy_threads := Some L\<rparr>))
      | A_Start1 t1 t2 \<Rightarrow>
          if fail \<or> started (fpc (fwds s ! t1)) then Some (set_acc i A_Sleep s)
          else Some (set_acc i (A_Start2 t2) (start_thread t1 s))
      | A_Start2 t2 \<Rightarrow>
          if fail \<or> started (fpc (fwds s ! t2)) then Some (set_acc i A_Sleep s)
          else Some (set_acc i A_Top (start_thread t2 s))
      | A_Sleep \<Rightarrow> Some (set_acc i A_Top s)
      | A_Done \<Rightarrow> None)"

section \<open>The system\<close>

text \<open>
  The actions: the caller's calls of \<open>run\<close> and \<open>stop\<close> and the steps of
  \<open>stop\<close>'s join loop, a step of an acceptance thread or of a forwarding thread
  (with the kernel's byte count), and the environment's actions on the sockets.
\<close>

datatype action =
    Call_run
  | Call_stop
  | Stop_step
  | Acc_step nat bool
  | Fwd_step tid nat
  | Client_connect nat
  | Peer_send sid bytes
  | Peer_close sid
  | Peer_reset sid

definition upd_sock :: "sid \<Rightarrow> sock \<Rightarrow> sys \<Rightarrow> sys" where
  "upd_sock c so s = s\<lparr>os := (os s)\<lparr>socks := (socks (os s))[c := so]\<rparr>\<rparr>"

definition fwd_sys_step :: "tid \<Rightarrow> nat \<Rightarrow> sys \<Rightarrow> sys option" where
  "fwd_sys_step t k s =
     (case forward_step (should_stop s) k (fwds s ! t) (socks (os s)) of
        None \<Rightarrow> None
      | Some (f, ss, out) \<Rightarrow>
          Some (s\<lparr>fwds := (fwds s)[t := f], os := (os s)\<lparr>socks := ss\<rparr>,
                  printed := printed s @ map (\<lambda>m. (t, m)) out\<rparr>))"

fun step :: "sys \<Rightarrow> action \<Rightarrow> sys option" where
  "step s Call_run = (if user s = U_Idle then Some (run_call s) else None)"
| "step s Call_stop = (if user s = U_Idle then Some (stop s) else None)"
| "step s Stop_step = stop_join_step s"
| "step s (Acc_step i fail) = (if i < length (acceptors s) then accept_step i fail s else None)"
| "step s (Fwd_step t k) = (if t < length (fwds s) then fwd_sys_step t k s else None)"
| "step s (Client_connect l) = map_option (\<lambda>st. s\<lparr>os := st\<rparr>) (client_connect l (os s))"
| "step s (Peer_send c bs) =
     (if c < length (socks (os s))
      then map_option (\<lambda>so. upd_sock c so s) (peer_send bs (socks (os s) ! c)) else None)"
| "step s (Peer_close c) =
     (if c < length (socks (os s)) then Some (upd_sock c (peer_close (socks (os s) ! c)) s) else None)"
| "step s (Peer_reset c) =
     (if c < length (socks (os s)) then Some (upd_sock c (peer_reset (socks (os s) ! c)) s) else None)"

text \<open>
  Runs from a fresh proxy in a process that holds no socket yet (\<open>b\<close>: ports other
  processes hold; \<open>ips\<close>: the local addresses), restricted to the actions that
  \<open>ok\<close> admits; \<open>reachable\<close> admits every action.
\<close>

definition init_os :: "int list \<Rightarrow> string list \<Rightarrow> os_state" where
  "init_os b ips = \<lparr>socks = [], lsocks = [], bound = b, local_ips = ips\<rparr>"

inductive reachable_by :: "(sys \<Rightarrow> action \<Rightarrow> bool) \<Rightarrow> sys \<Rightarrow> bool" for ok where
  init: "reachable_by ok (TCPProxy_init la d (init_os b ips))"
| step: "reachable_by ok s \<Longrightarrow> ok s a \<Longrightarrow> step s a = Some s' \<Longrightarrow> reachable_by ok s'"

abbreviation reachable :: "sys \<Rightarrow> bool" where
  "reachable \<equiv> reachable_by (\<lambda>_ _. True)"

fun exec :: "sys \<Rightarrow> action list \<Rightarrow> sys option" where
  "exec s [] = Some s"
| "exec s (a # as) = (case step s a of None \<Rightarrow> None | Some s' \<Rightarrow> exec s' as)"

text \<open>Runs in which every action is one that \<open>ok\<close> admits.\<close>

fun exec_by :: "(sys \<Rightarrow> action \<Rightarrow> bool) \<Rightarrow> sys \<Rightarrow> action list \<Rightarrow> sys option" where
  "exec_by ok s [] = Some s"
| "exec_by ok s (a # as) =
     (if ok s a then (case step s a of None \<Rightarrow> None | Some s' \<Rightarrow> exec_by ok s' as) else None)"

lemma exec_reachable: "reachable s \<Longrightarrow> exec s as = Some s' \<Longrightarrow> reachable s'"
proof (induction as arbitrary: s)
  case Nil
  then show ?case by simp
next
  case (Cons a as)
  then obtain s1 where "step s a = Some s1" and "exec s1 as = Some s'"
    by (auto split: option.splits)
  with Cons show ?case
    by (blast intro: reachable_by.step)
qed

lemma exec_by_reachable: "reachable_by ok s \<Longrightarrow> exec_by ok s as = Some s' \<Longrightarrow> reachable_by ok s'"
proof (induction as arbitrary: s)
  case Nil
  then show ?case by simp
next
  case (Cons a as)
  then obtain s1 where "ok s a" and "step s a = Some s1" and "exec_by ok s1 as = Some s'"
    by (auto split: if_splits option.splits)
  with Cons show ?case
    by (blast intro: reachable_by.step)
qed

lemma fwd_sys_step_Some:
  assumes "fwd_sys_step t k s = Some s'"
  obtains f' ss' out where
    "forward_step (should_stop s) k (fwds s ! t) (socks (os s)) = Some (f', ss', out)"
    and "s' = s\<lparr>fwds := (fwds s)[t := f'], os := (os s)\<lparr>socks := ss'\<rparr>,
                 printed := printed s @ map (\<lambda>m. (t, m)) out\<rparr>"
  using assms by (auto simp: fwd_sys_step_def split: option.splits)

lemma exec_append:
  "exec s (xs @ ys) = (case exec s xs of None \<Rightarrow> None | Some s' \<Rightarrow> exec s' ys)"
  by (induction xs arbitrary: s) (simp_all split: option.split)

end
