(* ===== verification/Lifecycle.thy ===== *)
theory Lifecycle
  imports Proxy
begin

text \<open>
  The life cycle of a \<open>TCPProxy\<close>: \<open>should_stop\<close> is cleared by \<open>__init__\<close> and set
  by the first \<open>stop\<close> call for good, so \<open>run\<close> and \<open>stop\<close> are refused after it.
  The guard of \<open>run\<close> tests that same flag: it does not see a proxy that is already
  running, and a second \<open>run\<close> is refused only by the kernel's bind, if at all.
\<close>

section \<open>Frame lemmas\<close>

text \<open>The fields of the proxy object that only \<open>run\<close> and \<open>stop\<close> write.\<close>

definition config :: "sys \<Rightarrow> bool \<times> IPV4Address \<times> IPV4Target \<times> nat option \<times> int list \<times> string list \<times> nat" where
  "config s = (should_stop s, listen_addr s, dest_addr s, listener s,
               bound (os s), local_ips (os s), length (acceptors s))"

text \<open>
  What a successful \<open>run\<close> leaves behind: an acceptance thread exists only once a
  listener was opened; then the listen address is local, its port in range, and a
  non-zero port stays bound (the code never closes the listener), with exactly one
  acceptance thread.
\<close>

definition listen_inv :: "sys \<Rightarrow> bool" where
  "listen_inv s \<longleftrightarrow>
     (listener s = None \<longrightarrow> acceptors s = []) \<and>
     (listener s \<noteq> None \<longrightarrow>
        host_ok (ip (listen_addr s)) (os s) \<and> 0 \<le> port (listen_addr s) \<and> port (listen_addr s) \<le> 65535 \<and>
        (port (listen_addr s) \<noteq> 0 \<longrightarrow>
           port (listen_addr s) \<in> set (bound (os s)) \<and> length (acceptors s) = 1))"

lemma config_set_acc [simp]: "i < length (acceptors s) \<Longrightarrow> config (set_acc i pc s) = config s"
  by (simp add: config_def set_acc_def)

lemma config_start_thread [simp]: "config (start_thread t s) = config s"
  by (simp add: config_def start_thread_def)

lemma config_upd_sock [simp]: "config (upd_sock c so s) = config s"
  by (simp add: config_def upd_sock_def)

lemma sock_accept_frame:
  "sock_accept l st = Some (c, st') \<Longrightarrow> bound st' = bound st \<and> local_ips st' = local_ips st"
  by (auto simp: sock_accept_def split: list.splits)

lemma accept_step_config:
  assumes "accept_step i fail s = Some s'" and "i < length (acceptors s)"
  shows "config s' = config s"
  using assms
  by (cases "acceptors s ! i")
     (auto simp: accept_step_def config_def set_acc_def start_thread_def connect_tcp_def
           dest!: sock_accept_frame split: if_splits option.splits sum.splits)

lemma fwd_sys_step_config: "fwd_sys_step t k s = Some s' \<Longrightarrow> config s' = config s"
  by (auto simp: fwd_sys_step_def config_def split: option.splits)

lemma client_connect_frame:
  "client_connect l st = Some st' \<Longrightarrow> bound st' = bound st \<and> local_ips st' = local_ips st"
  by (auto simp: client_connect_def split: if_splits)

lemma stop_join_step_config:
  "stop_join_step s = Some s' \<Longrightarrow> config s' = config s"
  by (auto simp: stop_join_step_def config_def Let_def split: user_pc.splits if_splits)

text \<open>Every action other than the two calls leaves the configuration alone.\<close>

lemma step_config:
  assumes "step s a = Some s'" and "a \<noteq> Call_run" and "a \<noteq> Call_stop"
  shows "config s' = config s"
  using assms
proof (cases a)
  case (Acc_step i fail)
  with assms show ?thesis by (auto intro: accept_step_config split: if_splits)
next
  case (Fwd_step t k)
  with assms show ?thesis by (auto intro: fwd_sys_step_config split: if_splits)
next
  case (Client_connect l)
  with assms show ?thesis by (auto simp: config_def dest: client_connect_frame)
next
  case (Peer_send c bs)
  with assms show ?thesis by (auto split: if_splits)
qed (auto intro: stop_join_step_config split: if_splits)

section \<open>The flag is permanent\<close>

lemma step_keeps_stop: "step s a = Some s' \<Longrightarrow> should_stop s \<Longrightarrow> should_stop s'"
proof (cases "a = Call_run \<or> a = Call_stop")
  case True
  then show "step s a = Some s' \<Longrightarrow> should_stop s \<Longrightarrow> should_stop s'"
    by (auto simp: run_call_def run_def stop_def split: if_splits)
next
  case False
  then show "step s a = Some s' \<Longrightarrow> should_stop s \<Longrightarrow> should_stop s'"
    using step_config [of s a s'] by (simp add: config_def)
qed

lemma exec_keeps_stop: "exec s as = Some s' \<Longrightarrow> should_stop s \<Longrightarrow> should_stop s'"
proof (induction as arbitrary: s)
  case Nil
  then show ?case by simp
next
  case (Cons a as)
  then obtain s1 where "step s a = Some s1" and "exec s1 as = Some s'"
    by (auto split: option.splits)
  with Cons.prems Cons.IH show ?case
    by (blast intro: step_keeps_stop)
qed

section \<open>The listening socket\<close>

lemma listen_inv_config: "config s' = config s \<Longrightarrow> listen_inv s' = listen_inv s"
  by (simp add: listen_inv_def config_def host_ok_def flip: length_0_conv)

lemma listen_inv_stop: "listen_inv (stop s) = listen_inv s"
  by (simp add: stop_def listen_inv_def host_ok_def split: option.splits)

lemma listen_inv_run:
  assumes "listen_inv s"
  shows "listen_inv (run_call s)"
proof (cases "run s")
  case (Inl e)
  with assms show ?thesis
    by (simp add: run_call_def listen_inv_def host_ok_def)
next
  case (Inr s')
  then obtain l st where ok: "\<not> should_stop s" and lt: "listen_tcp (listen_addr s) 100 (os s) = Inr (l, st)"
    and s': "s' = s\<lparr>should_stop := False, listener := Some l,
                 proxy_threads := Some (length (list_heap s)), list_heap := list_heap s @ [[]],
                 listen_thread := Some (length (acceptors s)), acceptors := acceptors s @ [A_Top],
                 os := st\<rparr>"
    by (auto simp: run_def split: if_splits sum.splits)
  from lt have checks: "host_ok (ip (listen_addr s)) (os s)" "0 \<le> port (listen_addr s)"
      "port (listen_addr s) \<le> 65535"
      "port (listen_addr s) \<noteq> 0 \<Longrightarrow> port (listen_addr s) \<notin> set (bound (os s))"
    by (auto simp: listen_tcp_def Let_def split: if_splits)
  have "port (listen_addr s) \<noteq> 0 \<Longrightarrow> acceptors s = []"
    using assms checks(4) by (auto simp: listen_inv_def)
  with lt checks Inr s' show ?thesis
    by (auto simp: run_call_def listen_inv_def host_ok_def dest: listen_tcp_Inr)
qed

lemma reachable_listen_inv: "reachable_by ok s \<Longrightarrow> listen_inv s"
proof (induction rule: reachable_by.induct)
  case (init la d b ips)
  then show ?case by (simp add: listen_inv_def TCPProxy_init_def)
next
  case (step s a s')
  show ?case
  proof (cases "a = Call_run \<or> a = Call_stop")
    case True
    with step show ?thesis
      by (auto simp: listen_inv_run listen_inv_stop split: if_splits)
  next
    case False
    with step show ?thesis
      using step_config [of s a s'] listen_inv_config by blast
  qed
qed

section \<open>Properties of the life cycle\<close>

text \<open>
  C17: once a call of \<open>stop\<close> has set \<open>should_stop\<close>, every later call of \<open>run\<close>,
  after any interleaving of the threads' and the peers' steps, raises
  \<open>Exception("Cannot start proxy while it is already running")\<close> and changes
  nothing but the exception the caller sees: a stopped proxy cannot be restarted.
\<close>

theorem run_refused_after_stop:
  assumes "should_stop s" and "exec s as = Some s'" and "user s' = U_Idle"
  shows "step s' Call_run =
           Some (s'\<lparr>last_exc := Some (Exception ''Cannot start proxy while it is already running'')\<rparr>)"
  using exec_keeps_stop [OF assms(2,1)] assms(3) by (simp add: run_call_def run_def)

text \<open>
  C18: once \<open>should_stop\<close> is set, every later call of \<open>stop\<close>, after any
  interleaving of steps, raises \<open>Exception("Cannot stop already stopped proxy")\<close>
  and changes nothing else: in particular it does not join any thread.
\<close>

theorem stop_refused_after_stop:
  assumes "should_stop s" and "exec s as = Some s'" and "user s' = U_Idle"
  shows "step s' Call_stop =
           Some (s'\<lparr>last_exc := Some (Exception ''Cannot stop already stopped proxy'')\<rparr>)"
  using exec_keeps_stop [OF assms(2,1)] assms(3) by (simp add: stop_def)

text \<open>
  C19: a second \<open>run\<close> on a running proxy is not refused by the guard of line 48
  (it tests \<open>should_stop\<close>, which a running proxy has cleared): when the listen
  port is not 0, it fails only because the kernel refuses to bind the port the
  first listener still holds, with \<open>OSError\<close> "Address already in use" and no
  change of state.
\<close>

theorem second_run_bind_error:
  assumes "reachable s" and "listener s \<noteq> None" and "port (listen_addr s) \<noteq> 0"
    and "\<not> should_stop s"
  shows "run s = Inl (OSError ''Address already in use'')"
  using reachable_listen_inv [OF assms(1)] assms(2-4)
  by (auto simp: listen_inv_def run_def listen_tcp_def Let_def)

text \<open>
  C20: with a listen port other than 0 there is never more than one acceptance
  thread, whatever the interleaving and however often \<open>run\<close> is called.
\<close>

theorem one_acceptor:
  assumes "reachable s" and "port (listen_addr s) \<noteq> 0"
  shows "length (acceptors s) \<le> 1"
  using reachable_listen_inv [OF assms(1)] assms(2)
  by (cases "listener s") (auto simp: listen_inv_def)

text \<open>
  C16: With listen port 0 the guard of \<open>run\<close> does not see a running proxy and the
  kernel picks another port: as long as an ephemeral port is free, a second
  \<open>run\<close> of a running proxy succeeds, opens a second listener on a port nobody
  holds, and starts a second acceptance thread.
\<close>

theorem port0_second_run:
  assumes "reachable s" and "listener s \<noteq> None" and "port (listen_addr s) = 0"
    and "\<not> should_stop s" and "fresh_port (bound (os s)) \<le> 65535"
  shows "\<exists>s'. run s = Inr s' \<and> length (acceptors s') = Suc (length (acceptors s)) \<and>
              listener s' = Some (length (lsocks (os s))) \<and>
              lport (lsocks (os s') ! length (lsocks (os s))) = fresh_port (bound (os s)) \<and>
              fresh_port (bound (os s)) \<notin> set (bound (os s))"
  using reachable_listen_inv [OF assms(1)] assms(2-5) fresh_port_fresh [of "bound (os s)"]
  by (auto simp: listen_inv_def run_def listen_tcp_def Let_def nth_append)

end
