(* ===== verification/Relay.thy ===== *)
theory Relay
  imports Lifecycle
begin

text \<open>
  The data path of the proxy: which thread owns which socket, and what the bytes
  that reach a destination are. An accepted client socket passes from the
  listener's queue to an acceptance thread, which pairs it with a new destination
  socket and hands the pair to two forwarding threads; every socket is read by at
  most one thread and written by at most one thread, whatever the interleaving.
  Over that ownership invariant, every forwarding thread keeps its relay property
  of \<open>Forwarder\<close> under every step of every thread and of the peers: what reached
  the destination is a subsequence of what the source's peer sent (always), and is
  exactly that stream less what is in flight when every \<open>send\<close> takes the whole
  chunk.
\<close>

section \<open>Ownership\<close>

text \<open>The sockets an acceptance thread holds at its program point (lines 70-75).\<close>

fun acc_socks :: "acc_pc \<Rightarrow> sid list" where
  "acc_socks (A_Connect c) = [c]"
| "acc_socks (A_Spawn c sv) = [c, sv]"
| "acc_socks _ = []"

text \<open>
  The references to sockets that no forwarding thread holds yet (the listeners'
  queues and the acceptance threads), and those of the forwarding threads as
  readers (\<open>src_socket\<close>) and as writers (\<open>dest_socket\<close>).
\<close>

definition held_refs :: "sys \<Rightarrow> sid multiset" where
  "held_refs s = sum_list (map (\<lambda>l. mset (pending l)) (lsocks (os s))) +
                 sum_list (map (\<lambda>a. mset (acc_socks a)) (acceptors s))"

definition src_refs :: "sys \<Rightarrow> sid multiset" where
  "src_refs s = mset (map fsrc (fwds s))"

definition dst_refs :: "sys \<Rightarrow> sid multiset" where
  "dst_refs s = mset (map fdst (fwds s))"

text \<open>\<open>self.listener\<close> names an existing listening socket.\<close>

definition listener_ok :: "sys \<Rightarrow> bool" where
  "listener_ok s \<longleftrightarrow> (case listener s of None \<Rightarrow> True | Some l \<Rightarrow> l < length (lsocks (os s)))"

text \<open>
  The ownership invariant: every reference names an existing socket; no socket is
  held twice as a reader or twice as a writer; no thread reads the socket it
  writes; a socket no thread reads still holds everything its peer sent, and a
  socket no thread writes has been sent nothing.
\<close>

definition sock_inv :: "sys \<Rightarrow> bool" where
  "sock_inv s \<longleftrightarrow>
     (\<forall>i \<in># held_refs s + src_refs s + dst_refs s. i < length (socks (os s))) \<and>
     unique_refs (held_refs s + src_refs s) \<and> unique_refs (held_refs s + dst_refs s) \<and>
     (\<forall>t < length (fwds s). fsrc (fwds s ! t) \<noteq> fdst (fwds s ! t)) \<and>
     (\<forall>i < length (socks (os s)). i \<notin># src_refs s \<longrightarrow> rx (socks (os s) ! i) = rx_total (socks (os s) ! i)) \<and>
     (\<forall>i < length (socks (os s)). i \<notin># dst_refs s \<longrightarrow> tx (socks (os s) ! i) = [])"

section \<open>The relay invariant\<close>

text \<open>
  The relay property a thread keeps: always the subsequence property; in the
  \<open>exact\<close> variant also equality for every thread that has not crashed.
\<close>

definition relay_prop :: "bool \<Rightarrow> fwd \<Rightarrow> sock list \<Rightarrow> bool" where
  "relay_prop exact f ss \<longleftrightarrow> relay_sub f ss \<and> (exact \<longrightarrow> \<not> crashed (fpc f) \<longrightarrow> relay_exact f ss)"

definition relays :: "bool \<Rightarrow> sys \<Rightarrow> bool" where
  "relays exact s \<longleftrightarrow> (\<forall>t < length (fwds s). relay_prop exact (fwds s ! t) (socks (os s)))"

definition relay_inv :: "bool \<Rightarrow> sys \<Rightarrow> bool" where
  "relay_inv exact s \<longleftrightarrow> listener_ok s \<and> sock_inv s \<and> relays exact s"

text \<open>
  The schedules in which every \<open>send\<close> of a forwarding thread takes its whole
  chunk, as \<open>sendall\<close> would.
\<close>

definition full_sends :: "sys \<Rightarrow> action \<Rightarrow> bool" where
  "full_sends s a =
     (case a of Fwd_step t k \<Rightarrow> t < length (fwds s) \<and> whole_send (fwds s ! t) k | _ \<Rightarrow> True)"

text \<open>What of a socket and of a thread the invariants depend on.\<close>

definition sdata :: "sock \<Rightarrow> bytes \<times> bytes \<times> bytes" where
  "sdata so = (rx so, rx_total so, tx so)"

definition rview :: "fwd \<Rightarrow> sid \<times> sid \<times> bytes \<times> bool" where
  "rview f = (fsrc f, fdst f, held (fpc f), crashed (fpc f))"

text \<open>
  The pairing of the forwarding threads: threads \<open>2j\<close> and \<open>2j+1\<close> were created by
  lines 74-75 for one connection and relay its two directions.
\<close>

definition pair_inv :: "sys \<Rightarrow> bool" where
  "pair_inv s \<longleftrightarrow> even (length (fwds s)) \<and>
     (\<forall>j. Suc (2 * j) < length (fwds s) \<longrightarrow>
        fsrc (fwds s ! Suc (2 * j)) = fdst (fwds s ! (2 * j)) \<and>
        fdst (fwds s ! Suc (2 * j)) = fsrc (fwds s ! (2 * j)))"

text \<open>The sockets a thread was created with (the arguments of lines 74-75).\<close>

definition fends :: "fwd \<Rightarrow> sid \<times> sid" where
  "fends f = (fsrc f, fdst f)"

section \<open>Frame lemmas\<close>

lemma listener_ok_frame:
  "listener s' = listener s \<Longrightarrow> length (lsocks (os s')) = length (lsocks (os s)) \<Longrightarrow>
   listener_ok s' = listener_ok s"
  by (simp add: listener_ok_def split: option.split)

lemma map_eq_nth:
  assumes "map g xs = map g ys" and "i < length ys"
  shows "g (xs ! i) = g (ys ! i)"
proof -
  have "length xs = length ys"
    using assms(1) by (rule map_eq_imp_length_eq)
  moreover have "map g xs ! i = map g ys ! i"
    using assms(1) by simp
  ultimately show ?thesis
    using assms(2) by simp
qed

lemma map_sdata_nth:
  "map sdata xs = map sdata ys \<Longrightarrow> i < length ys \<Longrightarrow>
   rx (xs ! i) = rx (ys ! i) \<and> rx_total (xs ! i) = rx_total (ys ! i) \<and> tx (xs ! i) = tx (ys ! i)"
  by (drule (1) map_eq_nth) (simp add: sdata_def)

lemma map_rview_nth:
  "map rview xs = map rview ys \<Longrightarrow> t < length ys \<Longrightarrow>
   rview (xs ! t) = rview (ys ! t) \<and> fsrc (xs ! t) = fsrc (ys ! t) \<and> fdst (xs ! t) = fdst (ys ! t)"
  by (drule (1) map_eq_nth) (simp add: rview_def)

lemma map_rview_refs:
  assumes "map rview xs = map rview ys"
  shows "map fsrc xs = map fsrc ys" and "map fdst xs = map fdst ys"
proof -
  have "map fsrc zs = map fst (map rview zs)" "map fdst zs = map (fst \<circ> snd) (map rview zs)" for zs
    by (simp_all add: rview_def)
  then show "map fsrc xs = map fsrc ys" "map fdst xs = map fdst ys"
    by (simp_all only: assms)
qed

text \<open>The relay property of a thread reads only its source's receive side and its
  destination's send side.\<close>

lemma relay_prop_frame:
  assumes "rx (ss' ! fsrc f) = rx (ss ! fsrc f)" and "rx_total (ss' ! fsrc f) = rx_total (ss ! fsrc f)"
    and "tx (ss' ! fdst f) = tx (ss ! fdst f)"
  shows "relay_prop e f ss' = relay_prop e f ss"
  using assms by (simp add: relay_prop_def relay_sub_def relay_exact_def relay_stream_def)

lemma relay_prop_rview:
  "rview f = rview g \<Longrightarrow> relay_prop e f ss = relay_prop e g ss"
  by (simp add: rview_def relay_prop_def relay_sub_def relay_exact_def relay_stream_def)

text \<open>Bytes a peer appends to the stream and to its history keep the relay property.\<close>

lemma relay_prop_append:
  assumes "relay_stream f ss' = relay_stream f ss @ d"
    and "rx_total (ss' ! fsrc f) = rx_total (ss ! fsrc f) @ d"
    and "relay_prop e f ss"
  shows "relay_prop e f ss'"
  using assms by (auto simp: relay_prop_def relay_sub_def relay_exact_def intro: subseq_append_right)

text \<open>
  The ownership invariant survives a step that changes no socket's data, keeps the
  forwarding threads' sockets, and only drops references.
\<close>

lemma sock_inv_shrink:
  assumes inv: "sock_inv s" and ss: "map sdata (socks (os s')) = map sdata (socks (os s))"
    and held: "held_refs s' \<subseteq># held_refs s" and fw: "map rview (fwds s') = map rview (fwds s)"
  shows "sock_inv s'"
proof -
  have refs: "src_refs s' = src_refs s" "dst_refs s' = dst_refs s"
    using map_rview_refs [OF fw] by (simp_all add: src_refs_def dst_refs_def)
  have len: "length (socks (os s')) = length (socks (os s))" "length (fwds s') = length (fwds s)"
    using map_eq_imp_length_eq [OF ss] map_eq_imp_length_eq [OF fw] by simp_all
  have sub: "held_refs s' + M \<subseteq># held_refs s + M" for M
    using held by (rule subset_mset.add_right_mono)
  have uniq: "unique_refs (held_refs s' + src_refs s')" "unique_refs (held_refs s' + dst_refs s')"
    using inv refs unique_refs_mono [OF sub] by (simp_all add: sock_inv_def)
  have "i \<in># held_refs s' \<Longrightarrow> i \<in># held_refs s" for i
    using held by (rule mset_subset_eqD)
  then have bound: "\<forall>i \<in># held_refs s' + src_refs s' + dst_refs s'. i < length (socks (os s'))"
    using inv refs len by (auto simp: sock_inv_def)
  show ?thesis
    using inv uniq bound refs len map_sdata_nth [OF ss] map_rview_nth [OF fw]
    by (simp add: sock_inv_def)
qed

lemma map_sdata_pointwise:
  "map sdata xs = map sdata ys \<Longrightarrow> \<forall>i < length ys. sdata (xs ! i) = sdata (ys ! i)"
  by (blast intro: map_eq_nth)

lemma relay_prop_sdata:
  "sdata (ss' ! fsrc f) = sdata (ss ! fsrc f) \<Longrightarrow> sdata (ss' ! fdst f) = sdata (ss ! fdst f) \<Longrightarrow>
   relay_prop e f ss' = relay_prop e f ss"
  by (rule relay_prop_frame) (simp_all add: sdata_def)

text \<open>A thread whose sockets are untouched and whose hand is empty relays exactly.\<close>

lemma relay_prop_fresh:
  "tx (ss ! fdst f) = [] \<Longrightarrow> rx (ss ! fsrc f) = rx_total (ss ! fsrc f) \<Longrightarrow> held (fpc f) = [] \<Longrightarrow>
   relay_prop e f ss"
  by (simp add: relay_prop_def relay_sub_def relay_exact_def relay_stream_def)

lemma inv_refs_bound:
  assumes "sock_inv s" and "t < length (fwds s)"
  shows "fsrc (fwds s ! t) < length (socks (os s))" and "fdst (fwds s ! t) < length (socks (os s))"
  using assms by (auto simp: sock_inv_def src_refs_def dst_refs_def)

lemma sock_inv_bound:
  assumes "sock_inv s"
  shows "i \<in># held_refs s \<Longrightarrow> i < length (socks (os s))"
    and "i \<in># src_refs s \<Longrightarrow> i < length (socks (os s))"
    and "i \<in># dst_refs s \<Longrightarrow> i < length (socks (os s))"
  using assms by (simp_all add: sock_inv_def)

text \<open>
  The relays survive a step that keeps the data of every existing socket (it may
  add sockets) and what of every thread they depend on.
\<close>

lemma relays_frame:
  assumes ss: "\<forall>i < length (socks (os s)). sdata (socks (os s') ! i) = sdata (socks (os s) ! i)"
    and inv: "sock_inv s" and fw: "map rview (fwds s') = map rview (fwds s)"
  shows "relays e s' = relays e s"
proof -
  have len: "length (fwds s') = length (fwds s)"
    using fw by (rule map_eq_imp_length_eq)
  have "relay_prop e (fwds s' ! t) (socks (os s')) = relay_prop e (fwds s ! t) (socks (os s))"
    if t: "t < length (fwds s)" for t
  proof -
    have r: "rview (fwds s' ! t) = rview (fwds s ! t)" and
      ends: "fsrc (fwds s' ! t) = fsrc (fwds s ! t)" "fdst (fwds s' ! t) = fdst (fwds s ! t)"
      using map_rview_nth [OF fw t] by simp_all
    have "relay_prop e (fwds s' ! t) (socks (os s')) = relay_prop e (fwds s' ! t) (socks (os s))"
      using ss inv_refs_bound [OF inv t] by (intro relay_prop_sdata) (simp_all add: ends)
    also have "\<dots> = relay_prop e (fwds s ! t) (socks (os s))"
      by (rule relay_prop_rview [OF r])
    finally show ?thesis .
  qed
  with len show ?thesis
    by (simp add: relays_def)
qed

text \<open>A step that only drops references to sockets keeps the whole invariant.\<close>

lemma relay_inv_quiet:
  assumes "relay_inv e s" and "map sdata (socks (os s')) = map sdata (socks (os s))"
    and "held_refs s' \<subseteq># held_refs s" and "map rview (fwds s') = map rview (fwds s)"
    and "listener_ok s'"
  shows "relay_inv e s'"
  using assms sock_inv_shrink relays_frame [OF map_sdata_pointwise] by (auto simp: relay_inv_def)

section \<open>Moving references\<close>

lemma held_refs_set_acc:
  assumes "i < length (acceptors s)"
  shows "held_refs (set_acc i pc s) + mset (acc_socks (acceptors s ! i)) = held_refs s + mset (acc_socks pc)"
  using sum_list_map_update [OF assms, of "\<lambda>a. mset (acc_socks a)" pc]
  by (simp add: held_refs_def set_acc_def add.assoc)

lemma held_refs_set_acc_quiet:
  "i < length (acceptors s) \<Longrightarrow> acc_socks (acceptors s ! i) = [] \<Longrightarrow> acc_socks pc = [] \<Longrightarrow>
   held_refs (set_acc i pc s) = held_refs s"
  using held_refs_set_acc [of i s pc] by simp

lemma map_update_same:
  assumes "g x = g (xs ! t)"
  shows "map g (xs[t := x]) = map g xs"
proof (cases "t < length xs")
  case True
  then have "map g (xs[t := x]) = (map g xs)[t := map g xs ! t]"
    using assms by (simp add: map_update)
  then show ?thesis
    by simp
qed (simp add: list_update_beyond not_less)

lemma map_rview_start_thread:
  assumes "\<not> started (fpc (fwds s ! t))"
  shows "map rview (fwds (start_thread t s)) = map rview (fwds s)"
proof (cases "t < length (fwds s)")
  case True
  have "rview ((fwds s ! t)\<lparr>fpc := F_Top\<rparr>) = rview (fwds s ! t)"
    using assms by (cases "fpc (fwds s ! t)") (simp_all add: rview_def)
  with True show ?thesis
    by (simp add: start_thread_def map_update_same)
qed (simp add: start_thread_def list_update_beyond not_less)

text \<open>\<open>accept()\<close> moves the first queued connection into the thread's hands.\<close>

lemma sock_accept_Some:
  assumes "sock_accept l st = Some (c, st')" and "l < length (lsocks st)"
  shows "sum_list (map (\<lambda>q. mset (pending q)) (lsocks st')) + {#c#} =
           sum_list (map (\<lambda>q. mset (pending q)) (lsocks st))"
    and "socks st' = socks st" and "length (lsocks st') = length (lsocks st)"
proof -
  obtain cs where p: "pending (lsocks st ! l) = c # cs"
    and st': "st' = st\<lparr>lsocks := (lsocks st)[l := (lsocks st ! l)\<lparr>pending := cs\<rparr>]\<rparr>"
    using assms(1) by (auto simp: sock_accept_def split: list.splits)
  show "sum_list (map (\<lambda>q. mset (pending q)) (lsocks st')) + {#c#} =
          sum_list (map (\<lambda>q. mset (pending q)) (lsocks st))"
    using sum_list_map_update [OF assms(2), of "\<lambda>q. mset (pending q)" "(lsocks st ! l)\<lparr>pending := cs\<rparr>"]
    by (simp add: st' p)
  show "socks st' = socks st" "length (lsocks st') = length (lsocks st)"
    by (simp_all add: st')
qed

text \<open>A new socket (a client's, or one \<open>connect_tcp\<close> opened) enters with one reference.\<close>

lemma sock_inv_new_sock:
  assumes inv: "sock_inv s" and ss: "socks (os s') = socks (os s) @ [new_sock]"
    and held: "held_refs s' = add_mset (length (socks (os s))) (held_refs s)"
    and fw: "map rview (fwds s') = map rview (fwds s)"
  shows "sock_inv s'"
proof -
  let ?n = "length (socks (os s))"
  have refs: "src_refs s' = src_refs s" "dst_refs s' = dst_refs s"
    using map_rview_refs [OF fw] by (simp_all add: src_refs_def dst_refs_def)
  have len: "length (fwds s') = length (fwds s)"
    using fw by (rule map_eq_imp_length_eq)
  have fresh: "?n \<notin># held_refs s + src_refs s" "?n \<notin># held_refs s + dst_refs s"
    using inv by (auto simp: sock_inv_def)
  have uniq: "unique_refs (held_refs s' + src_refs s')" "unique_refs (held_refs s' + dst_refs s')"
    using inv fresh by (simp_all add: held refs sock_inv_def)
  have bound: "\<forall>i \<in># held_refs s' + src_refs s' + dst_refs s'. i < length (socks (os s'))"
    using sock_inv_bound [OF inv] by (auto simp: held refs ss less_Suc_eq)
  have rx: "\<forall>i < length (socks (os s')). i \<notin># src_refs s' \<longrightarrow>
              rx (socks (os s') ! i) = rx_total (socks (os s') ! i)"
    using inv by (auto simp: sock_inv_def refs ss nth_append new_sock_def less_Suc_eq)
  have tx: "\<forall>i < length (socks (os s')). i \<notin># dst_refs s' \<longrightarrow> tx (socks (os s') ! i) = []"
    using inv by (auto simp: sock_inv_def refs ss nth_append new_sock_def less_Suc_eq)
  have "\<forall>t < length (fwds s'). fsrc (fwds s' ! t) \<noteq> fdst (fwds s' ! t)"
    using inv len map_rview_nth [OF fw] by (simp add: sock_inv_def)
  with uniq bound rx tx show ?thesis
    by (simp add: sock_inv_def)
qed

lemma relay_inv_new_sock:
  assumes "relay_inv e s" and "socks (os s') = socks (os s) @ [new_sock]"
    and "held_refs s' = add_mset (length (socks (os s))) (held_refs s)"
    and "map rview (fwds s') = map rview (fwds s)" and "listener_ok s'"
  shows "relay_inv e s'"
proof -
  have "\<forall>i < length (socks (os s)). sdata (socks (os s') ! i) = sdata (socks (os s) ! i)"
    using assms(2) by (simp add: nth_append)
  with assms show ?thesis
    using sock_inv_new_sock relays_frame by (auto simp: relay_inv_def)
qed

text \<open>
  Lines 74-75 hand the two sockets an acceptance thread holds to two new threads,
  one reading each: the references move, none is added.
\<close>

lemma relay_inv_spawn:
  assumes inv: "relay_inv e s" and i: "i < length (acceptors s)" and a: "acceptors s ! i = A_Spawn c sv"
    and pc: "acc_socks pc = []"
  defines "s' \<equiv> set_acc i pc (s\<lparr>fwds := fwds s @ [\<lparr>fsrc = c, fdst = sv, fpc = F_New\<rparr>,
                                                   \<lparr>fsrc = sv, fdst = c, fpc = F_New\<rparr>]\<rparr>)"
  shows "relay_inv e s'"
proof -
  let ?ss = "socks (os s)"
  have si: "sock_inv s" and rl: "relays e s" and lo: "listener_ok s"
    using inv by (simp_all add: relay_inv_def)
  have held: "held_refs s = add_mset c (add_mset sv (held_refs s'))"
    using held_refs_set_acc [of i "s\<lparr>fwds := fwds s @ _\<rparr>" pc] i a pc
    by (simp add: s'_def held_refs_def)
  have src: "src_refs s' = add_mset c (add_mset sv (src_refs s))"
    and dst: "dst_refs s' = add_mset sv (add_mset c (dst_refs s))"
    by (simp_all add: s'_def src_refs_def dst_refs_def set_acc_def)
  have u1: "unique_refs (add_mset c (add_mset sv (held_refs s' + src_refs s)))"
    and u2: "unique_refs (add_mset c (add_mset sv (held_refs s' + dst_refs s)))"
    using si by (simp_all add: sock_inv_def held)
  then have ne: "c \<noteq> sv" and c_src: "c \<notin># src_refs s" and sv_src: "sv \<notin># src_refs s"
    and c_dst: "c \<notin># dst_refs s" and sv_dst: "sv \<notin># dst_refs s"
    by auto
  have ss': "socks (os s') = ?ss"
    by (simp add: s'_def set_acc_def)
  have cb: "c < length ?ss" "sv < length ?ss"
    using si by (simp_all add: sock_inv_def held)
  have sock': "sock_inv s'"
  proof -
    have "unique_refs (held_refs s' + src_refs s')" "unique_refs (held_refs s' + dst_refs s')"
      using u1 u2 by (simp_all add: src dst add_mset_commute)
    moreover have "\<forall>i \<in># held_refs s' + src_refs s' + dst_refs s'. i < length (socks (os s'))"
    proof -
      have "i \<in># held_refs s' \<Longrightarrow> i < length ?ss" for i
        using sock_inv_bound(1) [OF si, of i] by (simp add: held)
      then show ?thesis
        using cb sock_inv_bound(2,3) [OF si] by (auto simp: src dst ss')
    qed
    moreover have "\<forall>t < length (fwds s'). fsrc (fwds s' ! t) \<noteq> fdst (fwds s' ! t)"
      using si ne by (auto simp: sock_inv_def s'_def set_acc_def nth_append less_Suc_eq)
    moreover have "\<forall>i < length (socks (os s')). i \<notin># src_refs s' \<longrightarrow>
        rx (socks (os s') ! i) = rx_total (socks (os s') ! i)"
      "\<forall>i < length (socks (os s')). i \<notin># dst_refs s' \<longrightarrow> tx (socks (os s') ! i) = []"
      using si by (auto simp: sock_inv_def src dst ss')
    ultimately show ?thesis
      by (simp add: sock_inv_def)
  qed
  have "relays e s'"
    unfolding relays_def
  proof (intro allI impI)
    fix t
    assume t: "t < length (fwds s')"
    show "relay_prop e (fwds s' ! t) (socks (os s'))"
    proof (cases "t < length (fwds s)")
      case True
      with rl show ?thesis
        by (simp add: relays_def s'_def set_acc_def nth_append)
    next
      case False
      with t have "t = length (fwds s) \<or> t = Suc (length (fwds s))"
        by (simp add: s'_def set_acc_def less_Suc_eq)
      with si cb c_src sv_src c_dst sv_dst show ?thesis
        by (auto simp: s'_def set_acc_def nth_append sock_inv_def intro!: relay_prop_fresh)
    qed
  qed
  moreover have "listener_ok s'"
    using lo listener_ok_frame [of s' s] by (simp add: s'_def set_acc_def)
  ultimately show ?thesis
    using sock' by (simp add: relay_inv_def)
qed

section \<open>Steps of the forwarding threads\<close>

lemma forward_step_ends:
  "forward_step b k f ss = Some (f', ss', out) \<Longrightarrow> fsrc f' = fsrc f \<and> fdst f' = fdst f"
  by (erule forward_step_cases) auto

lemma crashed_finished: "crashed pc \<Longrightarrow> finished pc"
  by (cases pc) simp_all

text \<open>The moving thread keeps its own relay property.\<close>

lemma relay_prop_forward_step:
  assumes st: "forward_step b k f ss = Some (f', ss', out)" and ne: "fsrc f \<noteq> fdst f"
    and idx: "fsrc f < length ss" "fdst f < length ss"
    and rel: "relay_prop e f ss" and whole: "e \<longrightarrow> whole_send f k"
  shows "relay_prop e f' ss'"
proof -
  have "\<not> crashed (fpc f)"
    using forward_step_started [OF st] crashed_finished by blast
  with rel have sub: "relay_sub f ss" and ex: "e \<Longrightarrow> relay_exact f ss"
    by (simp_all add: relay_prop_def)
  have "relay_sub f' ss'"
    by (rule forward_step_relay_sub [OF st ne sub idx])
  moreover have "relay_exact f' ss'" if "e" and "\<not> crashed (fpc f')"
    using forward_step_relay_exact [OF st ne _ idx ex] whole that by blast
  ultimately show ?thesis
    by (simp add: relay_prop_def)
qed

text \<open>A thread with other sockets does not see the step.\<close>

lemma relay_prop_other_step:
  assumes st: "forward_step b k f ss = Some (f', ss', out)"
    and ne: "fsrc g \<noteq> fsrc f" "fdst g \<noteq> fdst f" and idx: "fsrc g < length ss" "fdst g < length ss"
  shows "relay_prop e g ss' = relay_prop e g ss"
  using forward_step_rx [OF st idx(1) ne(1)] forward_step_rx_total [OF st idx(1)]
    forward_step_tx [OF st idx(2) ne(2)]
  by (rule relay_prop_frame)

lemma sock_inv_distinct:
  assumes "sock_inv s"
  shows "distinct (map fsrc (fwds s))" and "distinct (map fdst (fwds s))"
proof -
  have "unique_refs (src_refs s)" "unique_refs (dst_refs s)"
    using assms unique_refs_right [of "held_refs s"] by (simp_all add: sock_inv_def)
  then show "distinct (map fsrc (fwds s))" "distinct (map fdst (fwds s))"
    unfolding src_refs_def dst_refs_def by (simp_all del: mset_map)
qed

lemma relay_inv_fwd:
  assumes inv: "relay_inv e s" and t: "t < length (fwds s)" and st: "fwd_sys_step t k s = Some s'"
    and whole: "e \<longrightarrow> whole_send (fwds s ! t) k"
  shows "relay_inv e s'"
proof -
  let ?f = "fwds s ! t" and ?ss = "socks (os s)"
  obtain f' ss' out where fs: "forward_step (should_stop s) k ?f ?ss = Some (f', ss', out)"
    and s': "s' = s\<lparr>fwds := (fwds s)[t := f'], os := (os s)\<lparr>socks := ss'\<rparr>,
                     printed := printed s @ map (\<lambda>m. (t, m)) out\<rparr>"
    using st by (auto simp: fwd_sys_step_def split: option.splits)
  have si: "sock_inv s" and rl: "relays e s" and lo: "listener_ok s"
    using inv by (simp_all add: relay_inv_def)
  have ends: "fsrc f' = fsrc ?f" "fdst f' = fdst ?f"
    using forward_step_ends [OF fs] by simp_all
  have len: "length ss' = length ?ss"
    by (rule forward_step_length [OF fs])
  have idx: "fsrc ?f < length ?ss" "fdst ?f < length ?ss"
    using inv_refs_bound [OF si t] by simp_all
  have ne: "fsrc ?f \<noteq> fdst ?f"
    using si t by (simp add: sock_inv_def)
  have refs: "src_refs s' = src_refs s" "dst_refs s' = dst_refs s" "held_refs s' = held_refs s"
    using ends by (simp_all add: s' src_refs_def dst_refs_def held_refs_def map_update_same del: mset_map)
  have fsrc_in: "fsrc ?f \<in># src_refs s" and fdst_in: "fdst ?f \<in># dst_refs s"
    using t by (simp_all add: src_refs_def dst_refs_def)
  have ss': "socks (os s') = ss'" "length (fwds s') = length (fwds s)"
    by (simp_all add: s')
  have rx': "rx (ss' ! i) = rx_total (ss' ! i)" if "i < length ss'" "i \<notin># src_refs s" for i
  proof -
    have "i \<noteq> fsrc ?f"
      using that(2) fsrc_in by auto
    with that len si show ?thesis
      using forward_step_rx [OF fs] forward_step_rx_total [OF fs] by (simp add: sock_inv_def)
  qed
  have tx': "tx (ss' ! i) = []" if "i < length ss'" "i \<notin># dst_refs s" for i
  proof -
    have "i \<noteq> fdst ?f"
      using that(2) fdst_in by auto
    with that len si show ?thesis
      using forward_step_tx [OF fs] by (simp add: sock_inv_def)
  qed
  have ne': "fsrc (fwds s' ! u) \<noteq> fdst (fwds s' ! u)" if "u < length (fwds s')" for u
    using that si ne ends by (cases "u = t") (simp_all add: s' sock_inv_def)
  have "sock_inv s'"
    using si rx' tx' ne' len unfolding sock_inv_def ss' refs by simp
  moreover have "relays e s'"
    unfolding relays_def
  proof (intro allI impI)
    fix u
    assume u: "u < length (fwds s')"
    then have u': "u < length (fwds s)"
      by (simp add: s')
    show "relay_prop e (fwds s' ! u) (socks (os s'))"
    proof (cases "u = t")
      case True
      with rl t ne idx whole show ?thesis
        by (simp add: s' relays_def relay_prop_forward_step [OF fs])
    next
      case False
      have "fsrc (fwds s ! u) \<noteq> fsrc ?f"
        using nth_eq_iff_index_eq [OF sock_inv_distinct(1) [OF si], of u t] u' t False by simp
      moreover have "fdst (fwds s ! u) \<noteq> fdst ?f"
        using nth_eq_iff_index_eq [OF sock_inv_distinct(2) [OF si], of u t] u' t False by simp
      ultimately show ?thesis
        using False rl u' inv_refs_bound [OF si u']
        by (simp add: s' relays_def relay_prop_other_step [OF fs])
    qed
  qed
  moreover have "listener_ok s'"
    using lo listener_ok_frame [of s' s] by (simp add: s')
  ultimately show ?thesis
    by (simp add: relay_inv_def)
qed

section \<open>Steps of the acceptance threads\<close>

text \<open>The invariant reads only the sockets, the acceptance and forwarding threads and the listener.\<close>

lemma relay_inv_same:
  assumes "os s' = os s" and "acceptors s' = acceptors s" and "fwds s' = fwds s"
    and "listener s' = listener s"
  shows "relay_inv e s' = relay_inv e s"
proof -
  have "held_refs s' = held_refs s" "src_refs s' = src_refs s" "dst_refs s' = dst_refs s"
    using assms by (simp_all add: held_refs_def src_refs_def dst_refs_def)
  moreover have "listener_ok s' = listener_ok s"
    using assms by (intro listener_ok_frame) simp_all
  ultimately show ?thesis
    using assms by (simp add: relay_inv_def sock_inv_def relays_def)
qed

text \<open>A step of an acceptance thread between two points where it holds no socket.\<close>

lemma relay_inv_set_acc:
  assumes inv: "relay_inv e s" and i: "i < length (acceptors s)"
    and q: "acc_socks (acceptors s ! i) = []" "acc_socks pc = []"
    and fr: "os s1 = os s" "acceptors s1 = acceptors s" "listener s1 = listener s"
    and fw: "map rview (fwds s1) = map rview (fwds s)"
  shows "relay_inv e (set_acc i pc s1)"
proof (rule relay_inv_quiet [OF inv])
  have "held_refs s1 = held_refs s"
    using fr by (simp add: held_refs_def)
  then show "held_refs (set_acc i pc s1) \<subseteq># held_refs s"
    using held_refs_set_acc_quiet [of i s1 pc] i q fr by simp
  show "map sdata (socks (os (set_acc i pc s1))) = map sdata (socks (os s))"
    using fr by (simp add: set_acc_def)
  show "map rview (fwds (set_acc i pc s1)) = map rview (fwds s)"
    using fw by (simp add: set_acc_def)
  show "listener_ok (set_acc i pc s1)"
    using inv fr listener_ok_frame [of "set_acc i pc s1" s] by (simp add: set_acc_def relay_inv_def)
qed

text \<open>Line 70: \<open>accept()\<close> moves a queued client into the thread's hands.\<close>

lemma relay_inv_accept_client:
  assumes inv: "relay_inv e s" and i: "i < length (acceptors s)" and a: "acceptors s ! i = A_Accept"
    and l: "listener s = Some l" and sa: "sock_accept l (os s) = Some (c, st)"
  shows "relay_inv e (set_acc i (A_Connect c) (s\<lparr>os := st\<rparr>))"
proof -
  let ?s' = "set_acc i (A_Connect c) (s\<lparr>os := st\<rparr>)"
  have lt: "l < length (lsocks (os s))"
    using inv l by (simp add: relay_inv_def listener_ok_def)
  note acc = sock_accept_Some [OF sa lt]
  have "held_refs (s\<lparr>os := st\<rparr>) + {#c#} = held_refs s"
    unfolding held_refs_def by (simp flip: acc(1) add: ac_simps)
  moreover have "held_refs ?s' = held_refs (s\<lparr>os := st\<rparr>) + {#c#}"
    using held_refs_set_acc [of i "s\<lparr>os := st\<rparr>" "A_Connect c"] i a by simp
  ultimately have "held_refs ?s' = held_refs s"
    by simp
  moreover have "listener_ok ?s'"
    using inv acc(3) listener_ok_frame [of ?s' s] by (simp add: set_acc_def relay_inv_def)
  ultimately show ?thesis
    using acc(2) by (intro relay_inv_quiet [OF inv]) (simp_all add: set_acc_def)
qed

text \<open>Line 72: \<open>connect_tcp()\<close> either fails, dropping the client, or adds the destination socket.\<close>

lemma relay_inv_connect:
  assumes inv: "relay_inv e s" and i: "i < length (acceptors s)" and a: "acceptors s ! i = A_Connect c"
    and st: "accept_step i fail s = Some s'"
  shows "relay_inv e s'"
proof (cases "connect_tcp (dest_addr s) (\<not> fail) (os s)")
  case (Inl x)
  with st a have s': "s' = set_acc i A_Sleep s"
    by (simp add: accept_step_def)
  have "held_refs s' + {#c#} = held_refs s"
    using held_refs_set_acc [of i s A_Sleep] i a by (simp add: s')
  then have "held_refs s' \<subseteq># held_refs s"
    by (metis mset_subset_eq_add_left)
  moreover have "listener_ok s'"
    using inv listener_ok_frame [of s' s] by (simp add: s' set_acc_def relay_inv_def)
  ultimately show ?thesis
    by (intro relay_inv_quiet [OF inv]) (simp_all add: s' set_acc_def)
next
  case (Inr r)
  then obtain sv st' where ct: "connect_tcp (dest_addr s) (\<not> fail) (os s) = Inr (sv, st')"
    by (cases r) auto
  note new = connect_tcp_Inr [OF ct]
  with st a ct have s': "s' = set_acc i (A_Spawn c sv) (s\<lparr>os := st'\<rparr>)"
    by (simp add: accept_step_def)
  have "held_refs (s\<lparr>os := st'\<rparr>) = held_refs s"
    using new(2) by (simp add: held_refs_def)
  then have "held_refs s' + {#c#} = held_refs s + {#c, sv#}"
    using held_refs_set_acc [of i "s\<lparr>os := st'\<rparr>" "A_Spawn c sv"] i a by (simp add: s')
  then have "held_refs s' = add_mset (length (socks (os s))) (held_refs s)"
    using new(1) by simp
  moreover have "listener_ok s'"
    using inv new(2) listener_ok_frame [of s' s] by (simp add: s' set_acc_def relay_inv_def)
  ultimately show ?thesis
    using new(2) by (intro relay_inv_new_sock [OF inv]) (simp_all add: s' set_acc_def)
qed

lemma relay_inv_accept:
  assumes inv: "relay_inv e s" and i: "i < length (acceptors s)" and st: "accept_step i fail s = Some s'"
  shows "relay_inv e s'"
proof (cases "acceptors s ! i")
  case A_Top
  with st have "s' = set_acc i (if should_stop s then A_Done else A_Accept) s"
    by (simp add: accept_step_def)
  then show ?thesis
    by (simp only:) (rule relay_inv_set_acc [OF inv i], simp_all add: A_Top)
next
  case A_Accept
  show ?thesis
  proof (cases "fail \<or> listener s = None")
    case True
    with st A_Accept have "s' = set_acc i A_Sleep s"
      by (auto simp: accept_step_def split: if_splits)
    then show ?thesis
      by (simp only:) (rule relay_inv_set_acc [OF inv i], simp_all add: A_Accept)
  next
    case False
    then obtain l where l: "listener s = Some l" and nf: "\<not> fail"
      by auto
    with st A_Accept obtain c st' where sa: "sock_accept l (os s) = Some (c, st')"
      and s': "s' = set_acc i (A_Connect c) (s\<lparr>os := st'\<rparr>)"
      by (auto simp: accept_step_def split: option.splits)
    show ?thesis
      unfolding s' by (rule relay_inv_accept_client [OF inv i A_Accept l sa])
  qed
next
  case (A_Connect c)
  show ?thesis
    by (rule relay_inv_connect [OF inv i A_Connect st])
next
  case (A_Spawn c sv)
  with st have "s' = set_acc i (A_Extend (length (fwds s)) (Suc (length (fwds s))))
                  (s\<lparr>fwds := fwds s @ [\<lparr>fsrc = c, fdst = sv, fpc = F_New\<rparr>,
                                       \<lparr>fsrc = sv, fdst = c, fpc = F_New\<rparr>]\<rparr>)"
    by (simp add: accept_step_def)
  then show ?thesis
    using relay_inv_spawn [OF inv i A_Spawn] by simp
next
  case (A_Extend t1 t2)
  show ?thesis
  proof (cases "proxy_threads s")
    case None
    with st A_Extend have "s' = set_acc i A_Sleep s"
      by (simp add: accept_step_def)
    then show ?thesis
      by (simp only:) (rule relay_inv_set_acc [OF inv i], simp_all add: A_Extend)
  next
    case (Some L)
    with st A_Extend have "s' = set_acc i (A_Store L t1 t2)
                                 (s\<lparr>list_heap := (list_heap s)[L := list_heap s ! L @ [t1, t2]]\<rparr>)"
      by (simp add: accept_step_def)
    then show ?thesis
      by (simp only:) (rule relay_inv_set_acc [OF inv i], simp_all add: A_Extend)
  qed
next
  case (A_Store L t1 t2)
  with st have "s' = set_acc i (A_Start1 t1 t2) (s\<lparr>proxy_threads := Some L\<rparr>)"
    by (simp add: accept_step_def)
  then show ?thesis
    by (simp only:) (rule relay_inv_set_acc [OF inv i], simp_all add: A_Store)
next
  case (A_Start1 t1 t2)
  show ?thesis
  proof (cases "fail \<or> started (fpc (fwds s ! t1))")
    case True
    with st A_Start1 have "s' = set_acc i A_Sleep s"
      by (simp add: accept_step_def)
    then show ?thesis
      by (simp only:) (rule relay_inv_set_acc [OF inv i], simp_all add: A_Start1)
  next
    case False
    with st A_Start1 have "s' = set_acc i (A_Start2 t2) (start_thread t1 s)"
      by (simp add: accept_step_def)
    then show ?thesis
      using False map_rview_start_thread [of s t1]
      by (simp only:) (rule relay_inv_set_acc [OF inv i], simp_all add: A_Start1 start_thread_def)
  qed
next
  case (A_Start2 t2)
  show ?thesis
  proof (cases "fail \<or> started (fpc (fwds s ! t2))")
    case True
    with st A_Start2 have "s' = set_acc i A_Sleep s"
      by (simp add: accept_step_def)
    then show ?thesis
      by (simp only:) (rule relay_inv_set_acc [OF inv i], simp_all add: A_Start2)
  next
    case False
    with st A_Start2 have "s' = set_acc i A_Top (start_thread t2 s)"
      by (simp add: accept_step_def)
    then show ?thesis
      using False map_rview_start_thread [of s t2]
      by (simp only:) (rule relay_inv_set_acc [OF inv i], simp_all add: A_Start2 start_thread_def)
  qed
next
  case A_Sleep
  with st have "s' = set_acc i A_Top s"
    by (simp add: accept_step_def)
  then show ?thesis
    by (simp only:) (rule relay_inv_set_acc [OF inv i], simp_all add: A_Sleep)
next
  case A_Done
  with st show ?thesis
    by (simp add: accept_step_def)
qed

section \<open>Steps of the peers, \<open>run\<close> and \<open>stop\<close>\<close>

lemma refs_upd_sock [simp]:
  "held_refs (upd_sock c so s) = held_refs s" "src_refs (upd_sock c so s) = src_refs s"
  "dst_refs (upd_sock c so s) = dst_refs s"
  by (simp_all add: upd_sock_def held_refs_def src_refs_def dst_refs_def)

lemma relay_inv_upd_quiet:
  assumes "relay_inv e s" and "sdata so = sdata (socks (os s) ! c)"
  shows "relay_inv e (upd_sock c so s)"
proof (rule relay_inv_quiet [OF assms(1)])
  show "map sdata (socks (os (upd_sock c so s))) = map sdata (socks (os s))"
    using assms(2) by (simp add: upd_sock_def map_update_same)
  show "held_refs (upd_sock c so s) \<subseteq># held_refs s"
    by simp
  show "map rview (fwds (upd_sock c so s)) = map rview (fwds s)"
    by (simp add: upd_sock_def)
  show "listener_ok (upd_sock c so s)"
    using assms(1) listener_ok_frame [of "upd_sock c so s" s] by (simp add: upd_sock_def relay_inv_def)
qed

text \<open>A peer's bytes arrive at the end of the receive buffer and of the history.\<close>

lemma relay_inv_peer_send:
  assumes inv: "relay_inv e s" and c: "c < length (socks (os s))"
    and ps: "peer_send bs (socks (os s) ! c) = Some so"
  shows "relay_inv e (upd_sock c so s)"
proof -
  let ?ss = "socks (os s)" and ?s' = "upd_sock c so s"
  have so: "rx so = rx (?ss ! c) @ bs" "rx_total so = rx_total (?ss ! c) @ bs" "tx so = tx (?ss ! c)"
    using ps by (auto simp: peer_send_def split: if_splits)
  have si: "sock_inv s" and rl: "relays e s" and lo: "listener_ok s"
    using inv by (simp_all add: relay_inv_def)
  have ss': "socks (os ?s') = ?ss[c := so]" "fwds ?s' = fwds s"
    by (simp_all add: upd_sock_def)
  have "sock_inv ?s'"
    using si so c unfolding sock_inv_def ss' refs_upd_sock by (simp add: nth_list_update)
  moreover have "relay_prop e (fwds s ! t) (?ss[c := so])" if t: "t < length (fwds s)" for t
  proof -
    let ?g = "fwds s ! t"
    have ne: "fsrc ?g \<noteq> fdst ?g" and idx: "fsrc ?g < length ?ss" "fdst ?g < length ?ss"
      using si t inv_refs_bound [OF si t] by (simp_all add: sock_inv_def)
    have rel: "relay_prop e ?g ?ss"
      using rl t by (simp add: relays_def)
    show ?thesis
    proof (cases "fsrc ?g = c")
      case True
      with ne so idx have h: "relay_stream ?g (?ss[c := so]) = relay_stream ?g ?ss @ bs"
        "rx_total (?ss[c := so] ! fsrc ?g) = rx_total (?ss ! fsrc ?g) @ bs"
        by (simp_all add: relay_stream_def)
      show ?thesis
        by (rule relay_prop_append [OF h rel])
    next
      case False
      with so idx rel c show ?thesis
        by (subst relay_prop_frame) (auto simp: nth_list_update)
    qed
  qed
  moreover have "listener_ok ?s'"
    using lo listener_ok_frame [of ?s' s] by (simp add: upd_sock_def)
  ultimately show ?thesis
    by (simp add: relay_inv_def relays_def ss')
qed

text \<open>A client's connection is queued at the listener with a new socket.\<close>

lemma relay_inv_client_connect:
  assumes inv: "relay_inv e s" and cc: "client_connect l (os s) = Some st"
  shows "relay_inv e (s\<lparr>os := st\<rparr>)"
proof -
  let ?n = "length (socks (os s))" and ?ls = "lsocks (os s)"
  have l: "l < length ?ls"
    and st: "st = (os s)\<lparr>socks := socks (os s) @ [new_sock],
                        lsocks := ?ls[l := (?ls ! l)\<lparr>pending := pending (?ls ! l) @ [?n]\<rparr>]\<rparr>"
    using cc by (simp_all add: client_connect_def split: if_splits)
  have "sum_list (map (\<lambda>q. mset (pending q)) (lsocks st)) =
          add_mset ?n (sum_list (map (\<lambda>q. mset (pending q)) ?ls))"
    using sum_list_map_update [OF l, of "\<lambda>q. mset (pending q)" "(?ls ! l)\<lparr>pending := pending (?ls ! l) @ [?n]\<rparr>"]
    by (simp add: st)
  then have "held_refs (s\<lparr>os := st\<rparr>) = add_mset ?n (held_refs s)"
    by (simp add: held_refs_def)
  moreover have "listener_ok (s\<lparr>os := st\<rparr>)"
    using inv listener_ok_frame [of "s\<lparr>os := st\<rparr>" s] by (simp add: st relay_inv_def)
  ultimately show ?thesis
    by (intro relay_inv_new_sock [OF inv]) (simp_all add: st)
qed

lemma listen_tcp_lsocks:
  "listen_tcp a n st = Inr (l, st') \<Longrightarrow>
   \<exists>p. lsocks st' = lsocks st @ [\<lparr>lport = p, backlog = n, pending = []\<rparr>] \<and> socks st' = socks st"
  by (auto simp: listen_tcp_def Let_def split: if_splits)

text \<open>\<open>run\<close> adds a listener with an empty queue and a thread that holds nothing.\<close>

lemma relay_inv_run:
  assumes inv: "relay_inv e s"
  shows "relay_inv e (run_call s)"
proof (cases "run s")
  case (Inl x)
  with inv show ?thesis
    using relay_inv_same [of "run_call s" s e] by (simp add: run_call_def)
next
  case (Inr s')
  then obtain l st where lt: "listen_tcp (listen_addr s) 100 (os s) = Inr (l, st)"
    and s': "s' = s\<lparr>should_stop := False, listener := Some l,
                 proxy_threads := Some (length (list_heap s)), list_heap := list_heap s @ [[]],
                 listen_thread := Some (length (acceptors s)), acceptors := acceptors s @ [A_Top],
                 os := st\<rparr>"
    by (auto simp: run_def split: if_splits sum.splits)
  obtain p where ls: "lsocks st = lsocks (os s) @ [\<lparr>lport = p, backlog = 100, pending = []\<rparr>]"
    and ss: "socks st = socks (os s)"
    using listen_tcp_lsocks [OF lt] by blast
  have l: "l = length (lsocks (os s))"
    using listen_tcp_Inr(1) [OF lt] .
  have "run_call s = s'\<lparr>last_exc := None\<rparr>"
    using Inr by (simp add: run_call_def)
  moreover have "relay_inv e (s'\<lparr>last_exc := None\<rparr>)"
  proof (rule relay_inv_quiet [OF inv])
    show "held_refs (s'\<lparr>last_exc := None\<rparr>) \<subseteq># held_refs s"
      by (simp add: held_refs_def s' ls)
    show "listener_ok (s'\<lparr>last_exc := None\<rparr>)"
      by (simp add: listener_ok_def s' ls l)
  qed (simp_all add: s' ss)
  ultimately show ?thesis
    by simp
qed

lemma stop_join_step_frame:
  "stop_join_step s = Some s' \<Longrightarrow>
   os s' = os s \<and> acceptors s' = acceptors s \<and> fwds s' = fwds s \<and> listener s' = listener s"
  by (auto simp: stop_join_step_def Let_def split: user_pc.splits if_splits)

section \<open>The invariant of every reachable state\<close>

lemma relay_inv_step:
  assumes inv: "relay_inv e s" and st: "step s a = Some s'" and ok: "e \<longrightarrow> full_sends s a"
  shows "relay_inv e s'"
proof (cases a)
  case Call_run
  with st inv show ?thesis
    by (auto simp: relay_inv_run split: if_splits)
next
  case Call_stop
  with st inv show ?thesis
    using relay_inv_same [of "stop s" s e] by (auto simp: stop_def split: if_splits option.splits)
next
  case Stop_step
  with st inv show ?thesis
    using relay_inv_same [of s' s e] stop_join_step_frame [of s s'] by simp
next
  case (Acc_step i fail)
  with st inv show ?thesis
    by (auto intro: relay_inv_accept split: if_splits)
next
  case (Fwd_step t k)
  with st ok inv show ?thesis
    by (auto intro: relay_inv_fwd simp: full_sends_def split: if_splits)
next
  case (Client_connect l)
  with st inv show ?thesis
    by (auto intro: relay_inv_client_connect)
next
  case (Peer_send c bs)
  with st inv show ?thesis
    by (auto intro: relay_inv_peer_send split: if_splits)
next
  case (Peer_close c)
  with st inv show ?thesis
    by (auto intro: relay_inv_upd_quiet simp: peer_close_def sdata_def split: if_splits)
next
  case (Peer_reset c)
  with st inv show ?thesis
    by (auto intro: relay_inv_upd_quiet simp: peer_reset_def sdata_def split: if_splits)
qed

lemma relay_inv_init: "relay_inv e (TCPProxy_init la d (init_os b ips))"
  by (simp add: relay_inv_def sock_inv_def relays_def listener_ok_def held_refs_def src_refs_def
                dst_refs_def TCPProxy_init_def init_os_def)

lemma reachable_relay_inv: "reachable_by ok s \<Longrightarrow> relay_inv False s"
proof (induction rule: reachable_by.induct)
  case (init la d b ips)
  then show ?case by (rule relay_inv_init)
next
  case (step s a s')
  then show ?case by (blast intro: relay_inv_step)
qed

lemma full_sends_relay_inv: "reachable_by full_sends s \<Longrightarrow> relay_inv True s"
proof (induction rule: reachable_by.induct)
  case (init la d b ips)
  then show ?case by (rule relay_inv_init)
next
  case (step s a s')
  then show ?case by (blast intro: relay_inv_step)
qed

section \<open>Pairs of forwarding threads\<close>

lemma pair_inv_links:
  assumes "map fends (fwds s') = map fends (fwds s)"
  shows "pair_inv s' = pair_inv s"
proof -
  have len: "length (fwds s') = length (fwds s)"
    using assms by (rule map_eq_imp_length_eq)
  have "fends (fwds s' ! t) = fends (fwds s ! t)" if "t < length (fwds s)" for t
    using assms that by (rule map_eq_nth)
  with len show ?thesis
    unfolding pair_inv_def fends_def by (metis (no_types, lifting) Suc_lessD prod.inject)
qed

lemma pair_inv_append:
  assumes "pair_inv s" and "map fends (fwds s') = map fends (fwds s) @ [(c, sv), (sv, c)]"
  shows "pair_inv s'"
proof -
  let ?n = "length (fwds s)"
  have len: "length (fwds s') = Suc (Suc ?n)"
    using arg_cong [OF assms(2), of length] by simp
  have nth: "fends (fwds s' ! t) = (map fends (fwds s) @ [(c, sv), (sv, c)]) ! t" if "t < Suc (Suc ?n)" for t
    using arg_cong [OF assms(2), of "\<lambda>l. l ! t"] len that by simp
  have ev: "even ?n"
    using assms(1) by (simp add: pair_inv_def)
  show ?thesis
    unfolding pair_inv_def
  proof (rule conjI)
    show "even (length (fwds s'))"
      using ev len by simp
    show "\<forall>j. Suc (2 * j) < length (fwds s') \<longrightarrow>
            fsrc (fwds s' ! Suc (2 * j)) = fdst (fwds s' ! (2 * j)) \<and>
            fdst (fwds s' ! Suc (2 * j)) = fsrc (fwds s' ! (2 * j))"
    proof (intro allI impI)
      fix j
      assume j: "Suc (2 * j) < length (fwds s')"
      show "fsrc (fwds s' ! Suc (2 * j)) = fdst (fwds s' ! (2 * j)) \<and>
            fdst (fwds s' ! Suc (2 * j)) = fsrc (fwds s' ! (2 * j))"
      proof (cases "Suc (2 * j) < ?n")
        case True
        with assms(1) nth [of "2 * j"] nth [of "Suc (2 * j)"] len show ?thesis
          by (simp add: pair_inv_def fends_def nth_append)
      next
        case False
        with ev j len have "2 * j = ?n"
          by presburger
        with nth [of "2 * j"] nth [of "Suc (2 * j)"] len show ?thesis
          by (simp add: fends_def nth_append)
      qed
    qed
  qed
qed

text \<open>Only lines 74-75 create threads, two at a time with swapped sockets.\<close>

lemma accept_step_links:
  assumes "accept_step i fail s = Some s'"
  shows "map fends (fwds s') = map fends (fwds s) \<or>
         (\<exists>c sv. map fends (fwds s') = map fends (fwds s) @ [(c, sv), (sv, c)])"
proof -
  have start: "map fends (fwds (start_thread t s)) = map fends (fwds s)" for t
    by (simp add: start_thread_def map_update_same fends_def)
  show ?thesis
    using assms start
    by (cases "acceptors s ! i")
       (auto simp: accept_step_def set_acc_def fends_def split: if_splits option.splits sum.splits)
qed

lemma step_links:
  assumes "step s a = Some s'"
  shows "map fends (fwds s') = map fends (fwds s) \<or>
         (\<exists>c sv. map fends (fwds s') = map fends (fwds s) @ [(c, sv), (sv, c)])"
proof (cases a)
  case (Acc_step i fail)
  with assms show ?thesis
    using accept_step_links [of i fail s s'] by (simp split: if_splits)
next
  case (Fwd_step t k)
  with assms obtain f' ss' out where
    "forward_step (should_stop s) k (fwds s ! t) (socks (os s)) = Some (f', ss', out)"
    and "fwds s' = (fwds s)[t := f']"
    by (auto simp: fwd_sys_step_def split: if_splits option.splits)
  then show ?thesis
    by (simp add: map_update_same fends_def forward_step_ends)
next
  case Stop_step
  with assms show ?thesis
    using stop_join_step_frame [of s s'] by simp
qed (use assms in \<open>auto simp: run_call_def run_def stop_def upd_sock_def
       split: if_splits option.splits sum.splits\<close>)

lemma reachable_pair_inv: "reachable_by ok s \<Longrightarrow> pair_inv s"
proof (induction rule: reachable_by.induct)
  case (init la d b ips)
  then show ?case by (simp add: pair_inv_def TCPProxy_init_def)
next
  case (step s a s')
  then show ?case
    using step_links [OF step.hyps(3)] pair_inv_links pair_inv_append by blast
qed

section \<open>Properties of the data path\<close>

text \<open>
  C1: in every reachable state, whatever the interleaving of the threads, the
  kernel's byte counts and the peers' actions, what every forwarding thread has
  sent to its destination socket is a subsequence of what its source's peer sent:
  the proxy never invents, duplicates or reorders bytes, and never delivers one
  connection's bytes on another.
\<close>

theorem relay_integrity:
  assumes "reachable s" and "t < length (fwds s)"
  shows "subseq (tx (socks (os s) ! fdst (fwds s ! t))) (rx_total (socks (os s) ! fsrc (fwds s ! t)))"
proof -
  have "relay_sub (fwds s ! t) (socks (os s))"
    using reachable_relay_inv [OF assms(1)] assms(2) by (simp add: relay_inv_def relays_def relay_prop_def)
  then show ?thesis
    unfolding relay_sub_def relay_stream_def by (rule subseq_appendD)
qed

text \<open>
  C2: when every \<open>send\<close> takes the whole chunk (the behaviour of \<open>sendall\<close>),
  every forwarding thread that has not crashed relays exactly: the bytes sent to
  the destination, then the chunk in hand, then the unread bytes of the source are
  everything the source's peer sent, in order.
\<close>

theorem relay_exact_full_sends:
  assumes "reachable_by full_sends s" and "t < length (fwds s)" and "\<not> crashed (fpc (fwds s ! t))"
  shows "tx (socks (os s) ! fdst (fwds s ! t)) @ held (fpc (fwds s ! t)) @ rx (socks (os s) ! fsrc (fwds s ! t)) =
         rx_total (socks (os s) ! fsrc (fwds s ! t))"
  using full_sends_relay_inv [OF assms(1)] assms(2,3)
  by (simp add: relay_inv_def relays_def relay_prop_def relay_exact_def relay_stream_def)

text \<open>
  C4: no two forwarding threads read the same socket and no two write the same
  socket, which is why the code needs no lock around \<open>recv\<close> and \<open>send\<close>.
\<close>

theorem sockets_owned_once:
  assumes "reachable s" and "t < length (fwds s)" and "u < length (fwds s)" and "t \<noteq> u"
  shows "fsrc (fwds s ! t) \<noteq> fsrc (fwds s ! u) \<and> fdst (fwds s ! t) \<noteq> fdst (fwds s ! u)"
proof -
  have si: "sock_inv s"
    using reachable_relay_inv [OF assms(1)] by (simp add: relay_inv_def)
  show ?thesis
    using nth_eq_iff_index_eq [OF sock_inv_distinct(1) [OF si], of t u]
      nth_eq_iff_index_eq [OF sock_inv_distinct(2) [OF si], of t u] assms(2-4)
    by simp
qed

text \<open>
  C5: forwarding threads come in pairs, one per direction of a connection: thread
  \<open>2j+1\<close> reads the socket thread \<open>2j\<close> writes and writes the socket it reads.
\<close>

theorem forwarders_paired:
  assumes "reachable s"
  shows "pair_inv s"
  using assms by (rule reachable_pair_inv)

text \<open>
  C3: \<open>forward_traffic\<close> discards the count \<open>send\<close> returns (line 92). From any
  state in which a thread holds a chunk and has relayed exactly so far, a send in
  which the kernel takes only a proper prefix of the chunk is possible, and after
  it the thread is back at the top of its loop holding nothing: the unsent suffix
  is exactly what is missing between what was sent and what the peer sent, and no
  thread holds it any more.
\<close>

theorem partial_send_loses_bytes:
  assumes "t < length (fwds s)" and "fpc (fwds s ! t) = F_Send msg" and "0 < k" and "k < length msg"
    and "fdst (fwds s ! t) < length (socks (os s))" and "\<not> reset (socks (os s) ! fdst (fwds s ! t))"
    and "relay_exact (fwds s ! t) (socks (os s))"
  shows "\<exists>s'. step s (Fwd_step t k) = Some s' \<and> fpc (fwds s' ! t) = F_Top \<and>
              tx (socks (os s') ! fdst (fwds s' ! t)) @ drop k msg @ rx (socks (os s') ! fsrc (fwds s' ! t)) =
                rx_total (socks (os s') ! fsrc (fwds s' ! t)) \<and>
              drop k msg \<noteq> []"
proof -
  let ?f = "fwds s ! t" and ?ss = "socks (os s)"
  let ?so = "(?ss ! fdst ?f)\<lparr>tx := tx (?ss ! fdst ?f) @ take k msg\<rparr>"
  let ?s' = "s\<lparr>fwds := (fwds s)[t := ?f\<lparr>fpc := F_Top\<rparr>], os := (os s)\<lparr>socks := ?ss[fdst ?f := ?so]\<rparr>\<rparr>"
  have st: "step s (Fwd_step t k) = Some ?s'"
    using assms(1-4,6) by (simp add: fwd_sys_step_def forward_step_def sock_send_def)
  have ex: "tx (?ss ! fdst ?f) @ msg @ rx (?ss ! fsrc ?f) = rx_total (?ss ! fsrc ?f)"
    using assms(2,7) by (simp add: relay_exact_def relay_stream_def)
  have "tx (socks (os ?s') ! fdst ?f) @ drop k msg @ rx (socks (os ?s') ! fsrc ?f) =
        rx_total (socks (os ?s') ! fsrc ?f)"
  proof (cases "fsrc ?f = fdst ?f")
    case True
    then show ?thesis using ex assms(5) by simp
  next
    case False
    then show ?thesis using ex assms(5) by simp
  qed
  moreover have "drop k msg \<noteq> []"
    using assms(4) by simp
  ultimately show ?thesis
    using st assms(1) by simp
qed
end
