(* ===== verification/Shutdown.thy ===== *)
theory Shutdown
  imports Lifecycle
begin

text \<open>
  What the threads do around the end of a connection and the end of the proxy:
  the size of the chunks a forwarding thread prints and holds, the loop a thread
  runs once its source's peer has closed (it never ends on its own), the join
  loop of \<open>stop\<close>, which can only end after every thread it iterated over has
  finished and stays blocked on a forwarder blocked in \<open>recv\<close>, and an acceptance
  thread that outlives \<open>stop\<close> because it tests the flag only before \<open>accept()\<close>.
\<close>

section \<open>Chunks\<close>

text \<open>
  Every chunk printed by line 91 is non-empty and at most \<open>recv(1024)\<close>'s buffer
  long, and so is every chunk a thread holds before its \<open>send\<close>.
\<close>

definition chunk_inv :: "sys \<Rightarrow> bool" where
  "chunk_inv s \<longleftrightarrow>
     (\<forall>p \<in> set (printed s). snd p \<noteq> [] \<and> length (snd p) \<le> recv_bufsize) \<and>
     (\<forall>f \<in> set (fwds s). length (held (fpc f)) \<le> recv_bufsize)"

text \<open>
  The thread and list indices the acceptance threads and the proxy object hold
  name existing threads and list objects (\<open>nf\<close> threads, \<open>nh\<close> lists).
\<close>

fun acc_ok :: "nat \<Rightarrow> nat \<Rightarrow> acc_pc \<Rightarrow> bool" where
  "acc_ok nf nh (A_Extend t1 t2) \<longleftrightarrow> t1 < nf \<and> t2 < nf"
| "acc_ok nf nh (A_Store L t1 t2) \<longleftrightarrow> L < nh \<and> t1 < nf \<and> t2 < nf"
| "acc_ok nf nh (A_Start1 t1 t2) \<longleftrightarrow> t1 < nf \<and> t2 < nf"
| "acc_ok nf nh (A_Start2 t2) \<longleftrightarrow> t2 < nf"
| "acc_ok nf nh _ \<longleftrightarrow> True"

definition heap_ok :: "sys \<Rightarrow> bool" where
  "heap_ok s \<longleftrightarrow>
     (\<forall>L < length (list_heap s). \<forall>j < length (list_heap s ! L). list_heap s ! L ! j < length (fwds s)) \<and>
     (case proxy_threads s of None \<Rightarrow> True | Some L \<Rightarrow> L < length (list_heap s)) \<and>
     (\<forall>i < length (acceptors s). acc_ok (length (fwds s)) (length (list_heap s)) (acceptors s ! i))"

text \<open>
  Inside \<open>stop\<close>'s loop over list \<open>L\<close> with \<open>i\<close> threads done: the first \<open>i\<close>
  threads of the list have finished.
\<close>

definition join_ok :: "sys \<Rightarrow> nat \<Rightarrow> nat \<Rightarrow> bool" where
  "join_ok s L i \<longleftrightarrow> L < length (list_heap s) \<and> i \<le> length (list_heap s ! L) \<and>
     (\<forall>j < i. list_heap s ! L ! j < length (fwds s) \<and> finished (fpc (fwds s ! (list_heap s ! L ! j))))"

definition join_inv :: "sys \<Rightarrow> bool" where
  "join_inv s \<longleftrightarrow> heap_ok s \<and>
     (case user s of U_Idle \<Rightarrow> True | U_Join L i \<Rightarrow> join_ok s L i | U_Reset L n \<Rightarrow> join_ok s L n)"

text \<open>
  The peer of socket \<open>c\<close> acting on it; a socket whose peer is open and has sent
  nothing unread (\<open>recv\<close> on it blocks); the caller inside \<open>stop\<close> joining thread
  \<open>t\<close>, which is blocked in \<open>recv\<close> on such a socket.
\<close>

definition peer_of :: "sid \<Rightarrow> action \<Rightarrow> bool" where
  "peer_of c a =
     (case a of Peer_send c' _ \<Rightarrow> c' = c | Peer_close c' \<Rightarrow> c' = c | Peer_reset c' \<Rightarrow> c' = c | _ \<Rightarrow> False)"

definition quiet :: "sid \<Rightarrow> sys \<Rightarrow> bool" where
  "quiet c s \<longleftrightarrow> c < length (socks (os s)) \<and> rx (socks (os s) ! c) = [] \<and>
     \<not> rx_eof (socks (os s) ! c) \<and> \<not> reset (socks (os s) ! c)"

definition join_blocked :: "nat \<Rightarrow> nat \<Rightarrow> tid \<Rightarrow> sid \<Rightarrow> sys \<Rightarrow> bool" where
  "join_blocked L i t c s \<longleftrightarrow> user s = U_Join L i \<and> L < length (list_heap s) \<and>
     i < length (list_heap s ! L) \<and> list_heap s ! L ! i = t \<and> t < length (fwds s) \<and>
     fpc (fwds s ! t) = F_Recv \<and> fsrc (fwds s ! t) = c \<and> quiet c s"

section \<open>Chunk bounds\<close>

lemma forward_step_out:
  assumes "forward_step b k f ss = Some (f', ss', out)"
  shows "\<forall>m \<in> set out. m \<noteq> [] \<and> length m \<le> recv_bufsize"
  using assms
proof (cases rule: forward_step_cases)
  case (recv msg so)
  then show ?thesis
    using sock_recv_Inr(4) [OF recv(2)] by auto
qed simp_all

text \<open>Only a forwarding thread prints; other steps add threads that hold nothing.\<close>

lemma step_printed:
  assumes "step s a = Some s'" and "\<forall>t k. a \<noteq> Fwd_step t k"
  shows "printed s' = printed s \<and> (\<forall>f \<in> set (fwds s'). f \<in> set (fwds s) \<or> held (fpc f) = [])"
proof -
  have start: "f \<in> set (fwds s)" if "f \<in> set (fwds (start_thread t s))" and "held (fpc f) \<noteq> []" for t f
    using that set_update_subset_insert [of "fwds s" t "(fwds s ! t)\<lparr>fpc := F_Top\<rparr>"]
    by (auto simp: start_thread_def)
  have pr: "printed (start_thread t s) = printed s" for t
    by (simp add: start_thread_def)
  have acc: "printed s' = printed s \<and> (\<forall>f \<in> set (fwds s'). f \<in> set (fwds s) \<or> held (fpc f) = [])"
    if "accept_step i fail s = Some s'" for i fail
    using that
    by (cases "acceptors s ! i")
       (auto simp: accept_step_def set_acc_def pr intro: start split: if_splits option.splits sum.splits)
  show ?thesis
    using assms acc
    by (cases a) (auto simp: run_call_def run_def stop_def stop_join_step_def upd_sock_def Let_def
                       split: if_splits option.splits sum.splits user_pc.splits)
qed

lemma chunk_inv_step:
  assumes inv: "chunk_inv s" and st: "step s a = Some s'"
  shows "chunk_inv s'"
proof (cases "\<exists>t k. a = Fwd_step t k")
  case True
  then obtain t k where a: "a = Fwd_step t k"
    by blast
  with st obtain f' ss' out where fs: "forward_step (should_stop s) k (fwds s ! t) (socks (os s)) = Some (f', ss', out)"
    and t: "t < length (fwds s)"
    and s': "s' = s\<lparr>fwds := (fwds s)[t := f'], os := (os s)\<lparr>socks := ss'\<rparr>,
                     printed := printed s @ map (\<lambda>m. (t, m)) out\<rparr>"
    by (auto simp: fwd_sys_step_def split: if_splits option.splits)
  have "length (held (fpc f')) \<le> recv_bufsize"
    using forward_step_held_bound [OF fs] inv t by (simp add: chunk_inv_def)
  then show ?thesis
    using inv forward_step_out [OF fs] set_update_subset_insert [of "fwds s" t f']
    by (auto simp: chunk_inv_def s')
next
  case False
  then show ?thesis
    using inv step_printed [OF st] by (fastforce simp: chunk_inv_def)
qed

lemma reachable_chunk_inv: "reachable_by ok s \<Longrightarrow> chunk_inv s"
proof (induction rule: reachable_by.induct)
  case (init la d b ips)
  then show ?case by (simp add: chunk_inv_def TCPProxy_init_def)
next
  case (step s a s')
  then show ?case by (blast intro: chunk_inv_step)
qed

section \<open>Threads and lists only grow\<close>

lemma finished_started: "finished pc \<Longrightarrow> started pc"
  by (cases pc) simp_all

text \<open>A finished thread never changes again, and threads are never removed.\<close>

lemma step_fwds_grow:
  assumes "step s a = Some s'"
  shows "length (fwds s) \<le> length (fwds s') \<and>
         (\<forall>t < length (fwds s). finished (fpc (fwds s ! t)) \<longrightarrow> fwds s' ! t = fwds s ! t)"
proof -
  have start: "fwds (start_thread t s) ! u = fwds s ! u" if "\<not> started (fpc (fwds s ! t))"
    and "finished (fpc (fwds s ! u))" for t u
    using that finished_started by (cases "t = u") (auto simp: start_thread_def)
  have acc: "length (fwds s) \<le> length (fwds s') \<and>
         (\<forall>t < length (fwds s). finished (fpc (fwds s ! t)) \<longrightarrow> fwds s' ! t = fwds s ! t)"
    if "accept_step i fail s = Some s'" for i fail
    using that start
    by (cases "acceptors s ! i")
       (auto simp: accept_step_def set_acc_def nth_append start_thread_def
             split: if_splits option.splits sum.splits)
  have fwd: "length (fwds s) \<le> length (fwds s') \<and>
         (\<forall>u < length (fwds s). finished (fpc (fwds s ! u)) \<longrightarrow> fwds s' ! u = fwds s ! u)"
    if fss: "fwd_sys_step t k s = Some s'" for t k
  proof -
    obtain f' ss' out where fs: "forward_step (should_stop s) k (fwds s ! t) (socks (os s)) = Some (f', ss', out)"
      and "s' = s\<lparr>fwds := (fwds s)[t := f'], os := (os s)\<lparr>socks := ss'\<rparr>,
                 printed := printed s @ map (\<lambda>m. (t, m)) out\<rparr>"
      by (rule fwd_sys_step_Some [OF fss])
    then have s': "fwds s' = (fwds s)[t := f']"
      by simp
    have nf: "\<not> finished (fpc (fwds s ! t))"
      using forward_step_started [OF fs] by blast
    show ?thesis
    proof (intro conjI allI impI)
      show "length (fwds s) \<le> length (fwds s')"
        using s' by simp
      fix u
      assume "u < length (fwds s)" and "finished (fpc (fwds s ! u))"
      with nf have "t \<noteq> u"
        by auto
      then show "fwds s' ! u = fwds s ! u"
        using s' by simp
    qed
  qed
  show ?thesis
    using assms acc fwd
    by (cases a) (auto simp: run_call_def run_def stop_def stop_join_step_def upd_sock_def Let_def
                       split: if_splits option.splits sum.splits user_pc.splits)
qed

text \<open>The Python lists are only appended to, by line 76 and by a new list of lines 53 and 65.\<close>

lemma step_heap_grow:
  assumes "step s a = Some s'"
  shows "length (list_heap s) \<le> length (list_heap s') \<and>
         (\<forall>L < length (list_heap s). prefix (list_heap s ! L) (list_heap s' ! L))"
proof -
  have acc: "length (list_heap s) \<le> length (list_heap s') \<and>
         (\<forall>L < length (list_heap s). prefix (list_heap s ! L) (list_heap s' ! L))"
    if "accept_step i fail s = Some s'" for i fail
    using that
    by (cases "acceptors s ! i")
       (auto simp: accept_step_def set_acc_def start_thread_def prefix_update_append
             split: if_splits option.splits sum.splits)
  show ?thesis
    using assms acc
    by (cases a) (auto simp: run_call_def run_def stop_def stop_join_step_def upd_sock_def fwd_sys_step_def
                             Let_def nth_append split: if_splits option.splits sum.splits user_pc.splits)
qed

lemma join_ok_mono:
  assumes "join_ok s L i" and "step s a = Some s'"
  shows "join_ok s' L i"
proof -
  note f = step_fwds_grow [OF assms(2)] and h = step_heap_grow [OF assms(2)]
  have L: "L < length (list_heap s)" and i: "i \<le> length (list_heap s ! L)"
    using assms(1) by (simp_all add: join_ok_def)
  then obtain zs where zs: "list_heap s' ! L = list_heap s ! L @ zs"
    using h by (auto simp: prefix_def)
  show ?thesis
    using assms(1) f h L i zs by (auto simp: join_ok_def nth_append)
qed

section \<open>The indices stay valid\<close>

lemma acc_ok_mono: "acc_ok nf nh a \<Longrightarrow> nf \<le> nf' \<Longrightarrow> nh \<le> nh' \<Longrightarrow> acc_ok nf' nh' a"
  by (cases a) auto

lemma heap_ok_parts:
  assumes "heap_ok s"
  shows "\<And>L j. L < length (list_heap s) \<Longrightarrow> j < length (list_heap s ! L) \<Longrightarrow> list_heap s ! L ! j < length (fwds s)"
    and "\<And>L. proxy_threads s = Some L \<Longrightarrow> L < length (list_heap s)"
    and "\<And>i. i < length (acceptors s) \<Longrightarrow> acc_ok (length (fwds s)) (length (list_heap s)) (acceptors s ! i)"
  using assms by (auto simp: heap_ok_def)

lemma heap_okI:
  assumes "\<And>L j. L < length (list_heap s) \<Longrightarrow> j < length (list_heap s ! L) \<Longrightarrow> list_heap s ! L ! j < length (fwds s)"
    and "\<And>L. proxy_threads s = Some L \<Longrightarrow> L < length (list_heap s)"
    and "\<And>i. i < length (acceptors s) \<Longrightarrow> acc_ok (length (fwds s)) (length (list_heap s)) (acceptors s ! i)"
  shows "heap_ok s"
  using assms by (auto simp: heap_ok_def split: option.split)

lemma heap_ok_grow:
  assumes h: "heap_ok s" and eq: "list_heap s' = list_heap s" "proxy_threads s' = proxy_threads s"
    "acceptors s' = acceptors s" and le: "length (fwds s) \<le> length (fwds s')"
  shows "heap_ok s'"
proof (rule heap_okI)
  show "list_heap s' ! L ! j < length (fwds s')"
    if "L < length (list_heap s')" and "j < length (list_heap s' ! L)" for L j
    using heap_ok_parts(1) [OF h, of L j] that eq le by simp
  show "L < length (list_heap s')" if "proxy_threads s' = Some L" for L
    using heap_ok_parts(2) [OF h, of L] that eq by simp
  show "acc_ok (length (fwds s')) (length (list_heap s')) (acceptors s' ! i)"
    if "i < length (acceptors s')" for i
    using heap_ok_parts(3) [OF h, of i] that eq le by (simp add: acc_ok_mono)
qed

text \<open>A new empty list object (line 53 of \<open>run\<close>, line 65 of \<open>stop\<close>) becomes \<open>proxy_threads\<close>.\<close>

lemma heap_ok_new_list:
  assumes h: "heap_ok s" and eq: "fwds s' = fwds s" "list_heap s' = list_heap s @ [[]]"
    "proxy_threads s' = Some (length (list_heap s))"
    and acc: "acceptors s' = acceptors s \<or> acceptors s' = acceptors s @ [A_Top]"
  shows "heap_ok s'"
proof (rule heap_okI)
  show "list_heap s' ! L ! j < length (fwds s')"
    if "L < length (list_heap s')" and "j < length (list_heap s' ! L)" for L j
    using heap_ok_parts(1) [OF h, of L j] that eq by (auto simp: nth_append less_Suc_eq)
  show "L < length (list_heap s')" if "proxy_threads s' = Some L" for L
    using that eq by simp
  show "acc_ok (length (fwds s')) (length (list_heap s')) (acceptors s' ! i)"
    if "i < length (acceptors s')" for i
    using heap_ok_parts(3) [OF h, of i] that eq acc by (auto simp: nth_append acc_ok_mono less_Suc_eq)
qed

lemma heap_ok_set_acc:
  assumes h: "heap_ok s" and pc: "acc_ok (length (fwds s)) (length (list_heap s)) pc"
  shows "heap_ok (set_acc i pc s)"
proof (rule heap_okI)
  show "acc_ok (length (fwds (set_acc i pc s))) (length (list_heap (set_acc i pc s))) (acceptors (set_acc i pc s) ! j)"
    if "j < length (acceptors (set_acc i pc s))" for j
    using heap_ok_parts(3) [OF h, of j] pc that by (cases "i = j") (simp_all add: set_acc_def)
qed (use heap_ok_parts [OF h] in \<open>simp_all add: set_acc_def\<close>)

lemma heap_ok_accept:
  assumes h: "heap_ok s" and i: "i < length (acceptors s)" and st: "accept_step i fail s = Some s'"
  shows "heap_ok s'"
proof -
  note a = heap_ok_parts(3) [OF h i]
  have os: "heap_ok (s\<lparr>os := st\<rparr>)" for st
    using h by (rule heap_ok_grow) simp_all
  have start: "heap_ok (start_thread t s)" "length (fwds (start_thread t s)) = length (fwds s)" for t
    using h by (auto simp: start_thread_def intro: heap_ok_grow)
  show ?thesis
  proof (cases "acceptors s ! i")
    case (A_Spawn c sv)
    let ?s1 = "s\<lparr>fwds := fwds s @ [\<lparr>fsrc = c, fdst = sv, fpc = F_New\<rparr>, \<lparr>fsrc = sv, fdst = c, fpc = F_New\<rparr>]\<rparr>"
    have "heap_ok ?s1"
      using h by (rule heap_ok_grow) simp_all
    with st A_Spawn show ?thesis
      by (auto simp: accept_step_def intro: heap_ok_set_acc)
  next
    case (A_Extend t1 t2)
    show ?thesis
    proof (cases "proxy_threads s")
      case (Some L)
      let ?s1 = "s\<lparr>list_heap := (list_heap s)[L := list_heap s ! L @ [t1, t2]]\<rparr>"
      have L: "L < length (list_heap s)"
        using heap_ok_parts(2) [OF h Some] .
      have "heap_ok ?s1"
        using heap_ok_parts [OF h] a A_Extend L
        by (intro heap_okI) (auto simp: nth_list_update nth_append less_Suc_eq split: if_splits)
      with st A_Extend Some L a show ?thesis
        by (auto simp: accept_step_def intro: heap_ok_set_acc)
    qed (use st A_Extend h in \<open>auto simp: accept_step_def intro: heap_ok_set_acc\<close>)
  next
    case (A_Store L t1 t2)
    have "heap_ok (s\<lparr>proxy_threads := Some L\<rparr>)"
      using heap_ok_parts [OF h] a A_Store by (intro heap_okI) auto
    with st A_Store a show ?thesis
      by (auto simp: accept_step_def intro: heap_ok_set_acc)
  next
    case (A_Start1 t1 t2)
    with st a start h show ?thesis
      by (auto simp: accept_step_def intro: heap_ok_set_acc split: if_splits)
  next
    case (A_Start2 t2)
    with st start h show ?thesis
      by (auto simp: accept_step_def intro: heap_ok_set_acc split: if_splits)
  next
    case (A_Accept)
    with st os h show ?thesis
      by (auto simp: accept_step_def intro: heap_ok_set_acc split: if_splits option.splits)
  next
    case (A_Connect c)
    with st os h show ?thesis
      by (auto simp: accept_step_def intro: heap_ok_set_acc split: sum.splits)
  qed (use st h in \<open>auto simp: accept_step_def intro: heap_ok_set_acc split: if_splits\<close>)
qed

lemma heap_ok_run:
  assumes h: "heap_ok s"
  shows "heap_ok (run_call s)"
proof (cases "run s")
  case (Inl e)
  have "heap_ok (s\<lparr>last_exc := Some e\<rparr>)"
    using h by (rule heap_ok_grow) simp_all
  with Inl show ?thesis
    by (simp add: run_call_def)
next
  case (Inr s')
  then have "run_call s = s'\<lparr>last_exc := None\<rparr>" and
    "fwds s' = fwds s" "list_heap s' = list_heap s @ [[]]"
    "proxy_threads s' = Some (length (list_heap s))" "acceptors s' = acceptors s @ [A_Top]"
    by (auto simp: run_call_def run_def split: if_splits sum.splits)
  then show ?thesis
    using heap_ok_new_list [OF h, of "s'\<lparr>last_exc := None\<rparr>"] by simp
qed

lemma heap_ok_stop_join:
  assumes h: "heap_ok s" and st: "stop_join_step s = Some s'"
  shows "heap_ok s'"
proof (cases "user s")
  case (U_Reset L n)
  with st have "fwds s' = fwds s" "list_heap s' = list_heap s @ [[]]"
    "proxy_threads s' = Some (length (list_heap s))" "acceptors s' = acceptors s"
    by (auto simp: stop_join_step_def)
  then show ?thesis
    using heap_ok_new_list [OF h] by simp
qed (use h st in \<open>auto simp: stop_join_step_def Let_def intro: heap_ok_grow split: if_splits\<close>)

lemma heap_ok_step:
  assumes h: "heap_ok s" and st: "step s a = Some s'"
  shows "heap_ok s'"
proof (cases a)
  case (Fwd_step t k)
  with st obtain f' ss' out where "s' = s\<lparr>fwds := (fwds s)[t := f'], os := (os s)\<lparr>socks := ss'\<rparr>,
                 printed := printed s @ map (\<lambda>m. (t, m)) out\<rparr>"
    by (auto elim: fwd_sys_step_Some split: if_splits)
  with h show ?thesis
    by (auto intro: heap_ok_grow)
qed (use h st in \<open>auto intro: heap_ok_grow heap_ok_run heap_ok_stop_join heap_ok_accept
       simp: stop_def upd_sock_def split: if_splits option.splits\<close>)

text \<open>Only \<open>stop\<close> and its join loop move the caller's thread.\<close>

lemma step_user:
  assumes "step s a = Some s'" and "a \<noteq> Call_stop" and "a \<noteq> Stop_step"
  shows "user s' = user s"
proof -
  have acc: "user s' = user s" if "accept_step i fail s = Some s'" for i fail
    using that
    by (cases "acceptors s ! i")
       (auto simp: accept_step_def set_acc_def start_thread_def split: if_splits option.splits sum.splits)
  show ?thesis
    using assms acc
    by (cases a) (auto simp: run_call_def run_def upd_sock_def elim: fwd_sys_step_Some
                       split: if_splits option.splits sum.splits)
qed

lemma join_inv_step:
  assumes inv: "join_inv s" and st: "step s a = Some s'"
  shows "join_inv s'"
proof -
  have h: "heap_ok s" and h': "heap_ok s'"
    using inv heap_ok_step [OF _ st] by (simp_all add: join_inv_def)
  consider (same) "user s' = user s" | (stop) "a = Call_stop" | (join) "a = Stop_step"
    using step_user [OF st] by blast
  then show ?thesis
  proof cases
    case same
    with inv h' join_ok_mono [OF _ st] show ?thesis
      by (auto simp: join_inv_def split: user_pc.splits)
  next
    case stop
    with st h h' show ?thesis
      by (auto simp: join_inv_def join_ok_def stop_def heap_ok_def split: if_splits option.splits)
  next
    case join
    with st have js: "stop_join_step s = Some s'"
      by simp
    show ?thesis
    proof (cases "user s")
      case (U_Join L i)
      with inv have ok: "join_ok s L i"
        by (simp add: join_inv_def)
      have "i < length (list_heap s ! L) \<Longrightarrow> list_heap s ! L ! i < length (fwds s)"
        using heap_ok_parts(1) [OF h] ok by (simp add: join_ok_def)
      with js U_Join ok h' show ?thesis
        by (auto simp: join_inv_def stop_join_step_def join_ok_def Let_def less_Suc_eq split: if_splits)
    qed (use js h' in \<open>auto simp: join_inv_def stop_join_step_def\<close>)
  qed
qed

lemma reachable_join_inv: "reachable_by ok s \<Longrightarrow> join_inv s"
proof (induction rule: reachable_by.induct)
  case (init la d b ips)
  then show ?case by (simp add: join_inv_def heap_ok_def TCPProxy_init_def)
next
  case (step s a s')
  then show ?case by (blast intro: join_inv_step)
qed

text \<open>Joining a run of finished threads takes one step each.\<close>

lemma join_finished_steps:
  assumes "i \<le> length (list_heap s ! L)"
    and "\<forall>j. i \<le> j \<longrightarrow> j < length (list_heap s ! L) \<longrightarrow> finished (fpc (fwds s ! (list_heap s ! L ! j)))"
  shows "exec (s\<lparr>user := U_Join L i\<rparr>) (replicate (length (list_heap s ! L) - i) Stop_step) =
           Some (s\<lparr>user := U_Join L (length (list_heap s ! L))\<rparr>)"
  using assms
proof (induction "length (list_heap s ! L) - i" arbitrary: i)
  case 0
  then show ?case by simp
next
  case (Suc k)
  then have i: "i < length (list_heap s ! L)" and k: "length (list_heap s ! L) - Suc i = k"
    by simp_all
  have "finished (fpc (fwds s ! (list_heap s ! L ! i)))"
    using Suc.prems(2) i by simp
  then have "step (s\<lparr>user := U_Join L i\<rparr>) Stop_step = Some (s\<lparr>user := U_Join L (Suc i)\<rparr>)"
    using i finished_started by (simp add: stop_join_step_def Let_def)
  moreover have "replicate (length (list_heap s ! L) - i) Stop_step = Stop_step # replicate k Stop_step"
    by (simp add: Suc.hyps(2) [symmetric])
  ultimately show ?case
    using Suc.hyps(1) [OF k [symmetric]] i Suc.prems(2) by (simp add: k)
qed

text \<open>Once \<open>run\<close> has started an acceptance thread, \<open>proxy_threads\<close> is always set.\<close>

lemma step_keeps_proxy_threads:
  assumes "step s a = Some s'" and "proxy_threads s \<noteq> None"
  shows "proxy_threads s' \<noteq> None"
proof -
  have acc: "proxy_threads s' \<noteq> None" if "accept_step i fail s = Some s'" for i fail
    using that assms(2)
    by (cases "acceptors s ! i")
       (auto simp: accept_step_def set_acc_def start_thread_def split: if_splits option.splits sum.splits)
  show ?thesis
    using assms acc
    by (cases a)
       (auto simp: run_call_def run_def stop_def stop_join_step_def Let_def upd_sock_def
             elim: fwd_sys_step_Some split: if_splits option.splits sum.splits user_pc.splits)
qed

section \<open>Frames of a step\<close>

lemma step_started_frame:
  assumes "step s a = Some s'" and "t < length (fwds s)" and "started (fpc (fwds s ! t))"
    and "\<forall>k. a \<noteq> Fwd_step t k"
  shows "t < length (fwds s') \<and> fwds s' ! t = fwds s ! t"
proof -
  have start: "fwds (start_thread u s) ! t = fwds s ! t" if "\<not> started (fpc (fwds s ! u))" for u
    using that assms(3) by (cases "t = u") (auto simp: start_thread_def)
  have acc: "t < length (fwds s') \<and> fwds s' ! t = fwds s ! t" if "accept_step i fail s = Some s'" for i fail
    using that start assms(2)
    by (cases "acceptors s ! i")
       (auto simp: accept_step_def set_acc_def nth_append start_thread_def
             split: if_splits option.splits sum.splits)
  have fwd: "t < length (fwds s') \<and> fwds s' ! t = fwds s ! t" if fss: "fwd_sys_step u k s = Some s'" and "u \<noteq> t" for u k
  proof -
    obtain f' ss' out where "forward_step (should_stop s) k (fwds s ! u) (socks (os s)) = Some (f', ss', out)"
      and "s' = s\<lparr>fwds := (fwds s)[u := f'], os := (os s)\<lparr>socks := ss'\<rparr>,
                 printed := printed s @ map (\<lambda>m. (u, m)) out\<rparr>"
      by (rule fwd_sys_step_Some [OF fss])
    then show ?thesis
      using that(2) assms(2) by simp
  qed
  show ?thesis
    using assms acc fwd
    by (cases a) (auto simp: run_call_def run_def stop_def stop_join_step_def upd_sock_def Let_def
                       split: if_splits option.splits sum.splits user_pc.splits)
qed

lemma quiet_forward_step:
  assumes "forward_step b k f ss = Some (f', ss', out)" and "c < length ss"
    and "rx (ss ! c) = []" and "\<not> rx_eof (ss ! c)" and "\<not> reset (ss ! c)"
  shows "c < length ss' \<and> rx (ss' ! c) = [] \<and> \<not> rx_eof (ss' ! c) \<and> \<not> reset (ss' ! c)"
  using assms(1)
proof (cases rule: forward_step_cases)
  case (recv msg so)
  then have "fsrc f \<noteq> c"
    using assms(3-5) sock_recv_blocks by fastforce
  then show ?thesis
    using recv assms(2-5) by (cases "fsrc f < length ss") simp_all
next
  case (send msg m so)
  then show ?thesis
    using assms(2-5) sock_send_Inr [OF send(2)] by (cases "fdst f = c") simp_all
qed (use assms in simp_all)

lemma step_quiet:
  assumes "step s a = Some s'" and "\<not> peer_of c a" and "quiet c s"
  shows "quiet c s'"
proof -
  have acc: "quiet c s'" if "accept_step i fail s = Some s'" for i fail
    using that assms(3)
    by (cases "acceptors s ! i")
       (auto simp: quiet_def accept_step_def set_acc_def start_thread_def sock_accept_def connect_tcp_def
             nth_append split: if_splits option.splits sum.splits list.splits)
  have fwd: "quiet c s'" if fss: "fwd_sys_step u k s = Some s'" for u k
  proof -
    obtain f' ss' out where fs: "forward_step (should_stop s) k (fwds s ! u) (socks (os s)) = Some (f', ss', out)"
      and "s' = s\<lparr>fwds := (fwds s)[u := f'], os := (os s)\<lparr>socks := ss'\<rparr>,
                 printed := printed s @ map (\<lambda>m. (u, m)) out\<rparr>"
      by (rule fwd_sys_step_Some [OF fss])
    then show ?thesis
      using quiet_forward_step [OF fs] assms(3) by (simp add: quiet_def)
  qed
  show ?thesis
    using assms acc fwd
    by (cases a) (auto simp: quiet_def peer_of_def run_call_def run_def listen_tcp_def stop_def stop_join_step_def
                     upd_sock_def client_connect_def Let_def nth_append
                     split: if_splits option.splits sum.splits user_pc.splits)
qed

lemma join_blocked_stuck:
  assumes "join_blocked L i t c s"
  shows "stop_join_step s = None" and "fwd_sys_step t k s = None"
  using assms sock_recv_blocks
  by (auto simp: join_blocked_def quiet_def stop_join_step_def Let_def fwd_sys_step_def forward_step_def)

lemma join_blocked_step:
  assumes b: "join_blocked L i t c s" and st: "step s a = Some s'" and p: "\<not> peer_of c a"
  shows "join_blocked L i t c s'"
proof -
  have a: "a \<noteq> Call_run" "a \<noteq> Call_stop" "a \<noteq> Stop_step" "\<forall>k. a \<noteq> Fwd_step t k"
    using st b join_blocked_stuck [OF b] by (auto simp: join_blocked_def)
  have u: "user s' = user s"
    using step_user [OF st a(2,3)] .
  have h: "L < length (list_heap s') \<and> prefix (list_heap s ! L) (list_heap s' ! L)"
    using step_heap_grow [OF st] b by (auto simp: join_blocked_def)
  then have "i < length (list_heap s' ! L) \<and> list_heap s' ! L ! i = list_heap s ! L ! i"
    using b by (auto simp: join_blocked_def prefix_def nth_append)
  moreover have "t < length (fwds s') \<and> fwds s' ! t = fwds s ! t"
    using step_started_frame [OF st _ _ a(4)] b by (simp add: join_blocked_def)
  moreover have "quiet c s'"
    using step_quiet [OF st p] b by (simp add: join_blocked_def)
  ultimately show ?thesis
    using b u h by (simp add: join_blocked_def)
qed

lemma join_blocked_exec:
  "join_blocked L i t c s \<Longrightarrow> \<forall>a\<in>set as. \<not> peer_of c a \<Longrightarrow> exec s as = Some s' \<Longrightarrow>
   join_blocked L i t c s'"
proof (induction as arbitrary: s)
  case Nil
  then show ?case by simp
next
  case (Cons a as)
  then obtain s1 where st: "step s a = Some s1" and ex: "exec s1 as = Some s'"
    by (auto split: option.splits)
  have "join_blocked L i t c s1"
    using join_blocked_step [OF Cons.prems(1) st] Cons.prems(2) by simp
  then show ?case
    using Cons.IH Cons.prems(2) ex by simp
qed

section \<open>Properties of the end of connections and of \<open>stop\<close>\<close>

text \<open>
  C6: the join loop of \<open>stop\<close> (lines 63-64) exits only when every thread of the
  list it iterates over has finished: in the step where it leaves the loop, the
  number of threads it joined is the length of the list, and each of them is done
  or crashed.
\<close>

theorem stop_joins_finished:
  assumes "reachable s" and "user s = U_Join L i" and "stop_join_step s = Some s'"
    and "user s' = U_Reset L n"
  shows "n = length (list_heap s' ! L) \<and> (\<forall>j < n. finished (fpc (fwds s' ! (list_heap s' ! L ! j))))"
proof -
  have "step s Stop_step = Some s'"
    using assms(3) by simp
  then have "join_inv s'"
    using reachable_join_inv [OF reachable_by.step [OF assms(1)]] by blast
  moreover have "n = i" "\<not> i < length (list_heap s ! L)" "list_heap s' = list_heap s"
    using assms(2-4) by (auto simp: stop_join_step_def Let_def split: if_splits)
  ultimately show ?thesis
    using assms(4) by (auto simp: join_inv_def join_ok_def)
qed

text \<open>
  C14: every chunk printed by line 91 is non-empty and at most 1024 bytes long, in
  every reachable state.
\<close>

theorem chunk_bounds:
  assumes "reachable s" and "p \<in> set (printed s)"
  shows "snd p \<noteq> [] \<and> length (snd p) \<le> recv_bufsize"
  using reachable_chunk_inv [OF assms(1)] assms(2) by (simp add: chunk_inv_def)

text \<open>
  C15: once the source's peer has closed its side and its data is read, a forwarding
  thread that is in \<open>recv\<close> and whose destination is open spins: \<open>recv\<close> returns
  \<open>b''\<close>, \<open>send(b'')\<close> returns 0, the flag is clear, and after three steps the
  whole system is back in the same state, whatever the kernel's choices. The
  thread never ends on its own and never closes its destination.
\<close>

theorem eof_spin:
  assumes t: "t < length (fwds s)" and pc: "fpc (fwds s ! t) = F_Recv" and ns: "\<not> should_stop s"
    and src: "rx (socks (os s) ! fsrc (fwds s ! t)) = []" "rx_eof (socks (os s) ! fsrc (fwds s ! t))"
      "\<not> reset (socks (os s) ! fsrc (fwds s ! t))"
    and dst: "\<not> reset (socks (os s) ! fdst (fwds s ! t))"
  shows "exec s [Fwd_step t k1, Fwd_step t k2, Fwd_step t k3] = Some s"
proof -
  let ?f = "fwds s ! t" and ?ss = "socks (os s)"
  have r: "sock_recv recv_bufsize k1 (?ss ! fsrc ?f) = Some (Inr ([], ?ss ! fsrc ?f))"
    using sock_recv_eof [OF src(3,1,2)] .
  have w: "sock_send k2 [] (?ss ! fdst ?f) = Some (Inr (0, ?ss ! fdst ?f))"
    using sock_send_empty [OF dst] .
  let ?s1 = "s\<lparr>fwds := (fwds s)[t := ?f\<lparr>fpc := F_Send []\<rparr>]\<rparr>"
  let ?s2 = "s\<lparr>fwds := (fwds s)[t := ?f\<lparr>fpc := F_Top\<rparr>]\<rparr>"
  have s1: "step s (Fwd_step t k1) = Some ?s1"
    using t pc r by (simp add: fwd_sys_step_def forward_step_def)
  have s2: "step ?s1 (Fwd_step t k2) = Some ?s2"
    using t w by (simp add: fwd_sys_step_def forward_step_def)
  have e: "?f\<lparr>fpc := F_Recv\<rparr> = ?f"
    using pc by (cases ?f) simp
  have "step ?s2 (Fwd_step t k3) = Some s"
    using t pc ns by (simp add: fwd_sys_step_def forward_step_def, simp only: e list_update_id, simp)
  with s1 s2 show ?thesis
    by simp
qed

text \<open>
  C9: Once every thread of the list it joins has finished, \<open>stop\<close> returns: its
  join loop takes one step per remaining thread, then the reset of lines 65-66,
  and gives the caller's thread back with a new empty list.
\<close>

theorem stop_join_terminates:
  assumes "user s = U_Join L i"
    and "\<forall>t\<in>set (list_heap s ! L). finished (fpc (fwds s ! t))"
  shows "exec s (replicate (length (list_heap s ! L) - i + 2) Stop_step) =
           Some (s\<lparr>proxy_threads := Some (length (list_heap s)), list_heap := list_heap s @ [[]],
                   user := U_Idle, last_exc := None\<rparr>)"
proof (cases "i \<le> length (list_heap s ! L)")
  case True
  have "\<forall>j. i \<le> j \<longrightarrow> j < length (list_heap s ! L) \<longrightarrow> finished (fpc (fwds s ! (list_heap s ! L ! j)))"
    using assms(2) by simp
  moreover have e: "s\<lparr>user := U_Join L i\<rparr> = s"
    using assms(1) by (cases s) simp
  ultimately have "exec s (replicate (length (list_heap s ! L) - i) Stop_step) =
          Some (s\<lparr>user := U_Join L (length (list_heap s ! L))\<rparr>)"
    using join_finished_steps [OF True] by (simp only: e)
  moreover have "replicate (length (list_heap s ! L) - i + 2) Stop_step =
                   replicate (length (list_heap s ! L) - i) Stop_step @ [Stop_step, Stop_step]"
    by (simp only: replicate_add) (simp add: numeral_2_eq_2)
  ultimately show ?thesis
    by (simp add: exec_append stop_join_step_def)
next
  case False
  then show ?thesis
    using assms(1) by (simp add: numeral_2_eq_2 stop_join_step_def)
qed

text \<open>
  C12: \<open>stop\<close> blocks for good on a forwarding thread blocked in \<open>recv\<close>: while the
  caller joins a thread waiting on a socket whose peer is open and silent, no
  sequence of actions in which that peer does nothing (any steps of the other
  threads, of the kernel, of the other peers) lets the join return or the thread
  move (\<open>join()\<close> has no timeout, and the flag is not looked at inside \<open>recv\<close>).
\<close>

theorem stop_blocks_on_recv:
  assumes "user s = U_Join L i" and "L < length (list_heap s)" and "i < length (list_heap s ! L)"
    and "list_heap s ! L ! i = t" and "t < length (fwds s)" and "fpc (fwds s ! t) = F_Recv"
    and "fsrc (fwds s ! t) = c" and "c < length (socks (os s))" and "rx (socks (os s) ! c) = []"
    and "\<not> rx_eof (socks (os s) ! c)" and "\<not> reset (socks (os s) ! c)"
    and "\<forall>a\<in>set as. \<not> peer_of c a" and "exec s as = Some s'"
  shows "user s' = U_Join L i \<and> stop_join_step s' = None \<and> fpc (fwds s' ! t) = F_Recv"
proof -
  have "join_blocked L i t c s"
    using assms(1-11) by (simp add: join_blocked_def quiet_def)
  then have "join_blocked L i t c s'"
    using join_blocked_exec assms(12,13) by blast
  then show ?thesis
    using join_blocked_stuck(1) [of L i t c s'] by (simp add: join_blocked_def)
qed

text \<open>
  C7: The acceptance loop tests the flag only before blocking in \<open>accept()\<close>: an
  acceptance thread waiting there when \<open>stop\<close> sets the flag still accepts the next
  client, connects it to the destination, records and starts two forwarding
  threads, and only then sees the flag; the new threads see it at their first test
  and end without forwarding anything, leaving the client connected and unserved.
\<close>

theorem accept_after_stop:
  assumes "should_stop s" and "i < length (acceptors s)" and "acceptors s ! i = A_Accept"
    and "listener s = Some l" and "sock_accept l (os s) = Some (c, st)"
    and "connect_tcp (dest_addr s) True st = Inr (sv, st')" and "proxy_threads s = Some L"
  shows "exec s [Acc_step i False, Acc_step i False, Acc_step i False, Acc_step i False,
                 Acc_step i False, Acc_step i False, Acc_step i False, Acc_step i False] =
           Some (s\<lparr>os := st',
                   fwds := fwds s @ [\<lparr>fsrc = c, fdst = sv, fpc = F_Top\<rparr>, \<lparr>fsrc = sv, fdst = c, fpc = F_Top\<rparr>],
                   list_heap := (list_heap s)[L := list_heap s ! L @ [length (fwds s), Suc (length (fwds s))]],
                   acceptors := (acceptors s)[i := A_Done]\<rparr>)"
  using assms by (cases s) (simp add: accept_step_def set_acc_def start_thread_def nth_append list_update_append)

end
