(* ===== verification/Launcher.thy ===== *)
theory Launcher
  imports Shutdown
begin

text \<open>
  \<open>main()\<close> of \<open>src/hoodproxy/main.py\<close>: it builds the proxy from the four
  command-line values, calls \<open>run\<close>, and sleeps in a loop; an \<open>Exception\<close> raised
  while it sleeps makes it call \<open>stop\<close> and leave the loop. Python's
  \<open>KeyboardInterrupt\<close> and \<open>SystemExit\<close> derive from \<open>BaseException\<close>, not from
  \<open>Exception\<close>, so the handler does not catch them. The main thread's program
  counter and the proxy's state are one configuration; the proxy's threads and the
  peers keep stepping meanwhile, and after \<open>main()\<close> returns only while a
  forwarding thread (not a daemon) is alive.
\<close>

section \<open>State\<close>

text \<open>An exception as the main thread sees it: a subclass of \<open>Exception\<close> or one of the two others.\<close>

datatype base_exc = Py_exc py_exc | KeyboardInterrupt | SystemExit

text \<open>The values \<open>argparse\<close> returns (lines 11-15).\<close>

record main_args =
  listen_ip :: string
  listen_port :: int
  dest_ip :: string
  dest_port :: int

text \<open>
  The main thread: before \<open>proxy.run()\<close> (line 21), in the loop of lines 22-24,
  inside \<open>proxy.stop()\<close> called by the handler (line 26), or gone with the
  exception that ends the process (\<open>None\<close>: the \<open>break\<close> of line 28).
\<close>

datatype main_pc = M_Run | M_Sleep | M_Stopping | M_Exit "base_exc option"

text \<open>
  The main thread's actions: \<open>run\<close>, a sleep that returns, an exception raised in
  the main thread (by a signal), and the end of \<open>stop\<close> (line 27-28).
\<close>

datatype main_action = Main_run | Sleep_returns | Signal base_exc | Stop_returned

datatype launcher_action = Main main_action | Sys action

section \<open>Operations\<close>

text \<open>Lines 17-20: the proxy object, in a process whose OS state is \<open>st\<close>.\<close>

definition main_proxy :: "main_args \<Rightarrow> os_state \<Rightarrow> sys" where
  "main_proxy a st =
     TCPProxy_init \<lparr>ip = listen_ip a, port = listen_port a\<rparr>
                   \<lparr>address = \<lparr>ip = dest_ip a, port = dest_port a\<rparr>\<rparr> st"

text \<open>
  One step of the launcher. \<open>proxy.run()\<close> is not inside the \<open>try\<close>: its exception
  ends the process. In the loop, an exception raised in \<open>time.sleep(5)\<close> is
  caught only when it is an \<open>Exception\<close>; then \<open>proxy.stop()\<close> runs, and its
  join loop is the proxy's \<open>Stop_step\<close>. When \<open>stop\<close> has returned (or raised),
  the main thread logs and leaves (or the exception propagates). The proxy's
  threads and the peers step with \<open>Sys\<close>; only the main thread calls \<open>run\<close> and
  \<open>stop\<close>, and \<open>Stop_step\<close>, a step of \<open>stop\<close>'s join loop, is the main thread's
  own step while it is inside \<open>stop\<close>. The other threads keep stepping after the
  main thread has left while a forwarder is alive: the forwarders are not daemon
  threads (\<open>types.py\<close>, lines 74-75), so the interpreter waits for them before the
  process ends.
\<close>

text \<open>
  After the main thread has left, the interpreter waits in its shutdown for every
  started non-daemon thread, the forwarders; the daemon acceptance threads run
  meanwhile. Once no forwarder is alive the process ends.
\<close>

definition nondaemon_alive :: "sys \<Rightarrow> bool" where
  "nondaemon_alive s = list_ex (\<lambda>f. started (fpc f) \<and> \<not> finished (fpc f)) (fwds s)"

fun main_step :: "main_pc \<times> sys \<Rightarrow> launcher_action \<Rightarrow> (main_pc \<times> sys) option" where
  "main_step (M_Run, s) (Main Main_run) =
     (case run s of
        Inl e \<Rightarrow> Some (M_Exit (Some (Py_exc e)), s\<lparr>last_exc := Some e\<rparr>)
      | Inr s' \<Rightarrow> Some (M_Sleep, s'\<lparr>last_exc := None\<rparr>))"
| "main_step (M_Sleep, s) (Main Sleep_returns) = Some (M_Sleep, s)"
| "main_step (M_Sleep, s) (Main (Signal (Py_exc e))) =
     (let s' = stop s in
      if user s' = U_Idle then Some (M_Exit (map_option Py_exc (last_exc s')), s')
      else Some (M_Stopping, s'))"
| "main_step (M_Sleep, s) (Main (Signal x)) = Some (M_Exit (Some x), s)"
| "main_step (M_Stopping, s) (Main (Signal x)) = Some (M_Exit (Some x), s)"
| "main_step (M_Stopping, s) (Main Stop_returned) =
     (if user s = U_Idle then Some (M_Exit (map_option Py_exc (last_exc s)), s) else None)"
| "main_step (pc, s) (Sys a) =
     (if a = Call_run \<or> a = Call_stop \<or> (a = Stop_step \<and> pc \<noteq> M_Stopping) then None
      else case pc of
        M_Exit _ \<Rightarrow> if nondaemon_alive s then map_option (\<lambda>s'. (pc, s')) (step s a) else None
      | _ \<Rightarrow> map_option (\<lambda>s'. (pc, s')) (step s a))"
| "main_step _ _ = None"

text \<open>The launcher's configurations from a fresh process.\<close>

text \<open>A sequence of launcher steps.\<close>

fun main_exec :: "main_pc \<times> sys \<Rightarrow> launcher_action list \<Rightarrow> (main_pc \<times> sys) option" where
  "main_exec c [] = Some c"
| "main_exec c (a # as) = (case main_step c a of None \<Rightarrow> None | Some c' \<Rightarrow> main_exec c' as)"

inductive main_reach :: "main_pc \<times> sys \<Rightarrow> bool" where
  init: "main_reach (M_Run, main_proxy a (init_os b ips))"
| step: "main_reach c \<Longrightarrow> main_step c act = Some c' \<Longrightarrow> main_reach c'"

text \<open>
  Before \<open>run\<close>, the proxy is fresh. While the main thread sleeps, the proxy is running: its flag is clear, the
  caller's thread is not inside \<open>stop\<close>, and \<open>proxy_threads\<close> is set.
\<close>

definition main_inv :: "main_pc \<times> sys \<Rightarrow> bool" where
  "main_inv c \<longleftrightarrow>
     (fst c = M_Run \<longrightarrow> \<not> should_stop (snd c) \<and> user (snd c) = U_Idle) \<and>
     (fst c = M_Sleep \<longrightarrow> \<not> should_stop (snd c) \<and> user (snd c) = U_Idle \<and> proxy_threads (snd c) \<noteq> None)"

section \<open>The launcher's invariant\<close>

text \<open>A step of the other threads leaves the main thread where it is.\<close>

lemma main_step_Sys:
  assumes "main_step (pc, s) (Sys a) = Some (pc', s')"
  shows "step s a = Some s' \<and> pc' = pc \<and> a \<noteq> Call_run \<and> a \<noteq> Call_stop"
  using assms by (cases pc) (auto split: if_splits)

lemma step_proxy_threads:
  assumes "step s a = Some s'" and "a \<noteq> Call_run" and "a \<noteq> Call_stop" and "user s = U_Idle"
    and "proxy_threads s \<noteq> None"
  shows "proxy_threads s' \<noteq> None"
  using step_keeps_proxy_threads [OF assms(1,5)] .

text \<open>A step of the proxy's threads or of the peers keeps what the main thread relies on.\<close>

lemma sys_step_main:
  assumes "step s a = Some s'" and "a \<noteq> Call_run" and "a \<noteq> Call_stop" and "user s = U_Idle"
  shows "user s' = U_Idle \<and> should_stop s' = should_stop s \<and>
         (proxy_threads s \<noteq> None \<longrightarrow> proxy_threads s' \<noteq> None)"
proof -
  have "a \<noteq> Stop_step"
    using assms(1,4) by (auto simp: stop_join_step_def)
  then have "user s' = user s"
    using step_user [OF assms(1,3)] by simp
  moreover have "config s' = config s"
    using step_config [OF assms(1-3)] .
  ultimately show ?thesis
    using assms step_proxy_threads [OF assms(1-4)] by (simp add: config_def)
qed

lemma main_inv_step:
  assumes inv: "main_inv (pc, s)" and st: "main_step (pc, s) act = Some c'"
  shows "main_inv c'"
proof (cases act)
  case (Main m)
  show ?thesis
  proof (cases pc)
    case M_Run
    then have u: "user s = U_Idle"
      using inv by (simp add: main_inv_def)
    show ?thesis
    proof (cases m)
      case Main_run
      with st Main M_Run u show ?thesis
        by (auto simp: main_inv_def run_def split: sum.splits if_splits)
    qed (use st Main M_Run in simp_all)
  next
    case M_Sleep
    show ?thesis
    proof (cases m)
      case (Signal x)
      with st Main M_Sleep show ?thesis
        by (cases x) (auto simp: main_inv_def Let_def split: if_splits)
    qed (use st Main M_Sleep inv in simp_all)
  next
    case M_Stopping
    then show ?thesis
      using st Main by (cases m) (auto simp: main_inv_def split: if_splits)
  next
    case (M_Exit x)
    then show ?thesis
      using st Main by (cases m) simp_all
  qed
next
  case (Sys a)
  obtain pc' s' where c0: "c' = (pc', s')"
    by (cases c')
  have "main_step (pc, s) (Sys a) = Some (pc', s')"
    using st Sys c0 by simp
  then have ms: "step s a = Some s' \<and> pc' = pc \<and> a \<noteq> Call_run \<and> a \<noteq> Call_stop"
    by (rule main_step_Sys)
  then have a: "a \<noteq> Call_run" "a \<noteq> Call_stop" and s': "step s a = Some s'" and c': "c' = (pc, s')"
    using c0 by simp_all
  show ?thesis
  proof (cases "pc = M_Run \<or> pc = M_Sleep")
    case True
    then have "user s = U_Idle"
      using inv by (auto simp: main_inv_def)
    with True inv show ?thesis
      using sys_step_main [OF s' a] by (auto simp: main_inv_def c')
  next
    case False
    then show ?thesis
      by (simp add: main_inv_def c')
  qed
qed

lemma main_reach_inv: "main_reach c \<Longrightarrow> main_inv c"
proof (induction rule: main_reach.induct)
  case (init a b ips)
  then show ?case by (simp add: main_inv_def main_proxy_def TCPProxy_init_def)
next
  case (step c act c')
  obtain pc s where "c = (pc, s)"
    by (cases c)
  with step show ?case
    using main_inv_step by blast
qed

text \<open>
  A launcher step changes the proxy's state as one of the proxy's own steps does:
  \<open>run\<close> and \<open>stop\<close> are the calls \<open>Call_run\<close> and \<open>Call_stop\<close> made from
  the idle main thread.
\<close>

lemma main_step_Main:
  assumes "main_step (pc, s) (Main m) = Some (pc', s')"
  shows "s' = s \<or> (pc = M_Run \<and> s' = run_call s) \<or> (pc = M_Sleep \<and> s' = stop s)"
proof (cases pc)
  case M_Run
  with assms show ?thesis
    by (cases m) (auto simp: run_call_def split: sum.splits)
next
  case M_Sleep
  show ?thesis
  proof (cases m)
    case (Signal x)
    with assms M_Sleep show ?thesis
      by (cases x) (auto simp: Let_def split: if_splits)
  qed (use assms M_Sleep in simp_all)
next
  case M_Stopping
  with assms show ?thesis
    by (cases m) (auto split: if_splits)
qed (use assms in \<open>cases m; simp\<close>)

lemma main_reach_proxy: "main_reach c \<Longrightarrow> reachable (snd c)"
proof (induction rule: main_reach.induct)
  case (init a b ips)
  then show ?case
    by (simp add: main_proxy_def reachable_by.init)
next
  case (step c act c')
  obtain pc s where c: "c = (pc, s)"
    by (cases c)
  obtain pc' s' where c': "c' = (pc', s')"
    by (cases c')
  have inv: "main_inv (pc, s)"
    using main_reach_inv [OF step.hyps(1)] c by simp
  have r: "reachable s"
    using step.IH c by simp
  show ?case
  proof (cases act)
    case (Main m)
    then consider "s' = s" | "pc = M_Run" "s' = run_call s" | "pc = M_Sleep" "s' = stop s"
      using main_step_Main step.hyps(2) c c' by blast
    then show ?thesis
    proof cases
      case 1
      then show ?thesis using r c' by simp
    next
      case 2
      then have "step s Call_run = Some s'"
        using inv by (simp add: main_inv_def)
      from reachable_by.step [OF r _ this] show ?thesis using c' by simp
    next
      case 3
      then have "step s Call_stop = Some s'"
        using inv by (simp add: main_inv_def)
      from reachable_by.step [OF r _ this] show ?thesis using c' by simp
    qed
  next
    case (Sys a)
    then have "main_step (pc, s) (Sys a) = Some (pc', s')"
      using step.hyps(2) c c' by simp
    then have "step s a = Some s'"
      using main_step_Sys by blast
    from reachable_by.step [OF r _ this] show ?thesis using c' by simp
  qed
qed

text \<open>After the main thread has left, the other threads never set the flag.\<close>

lemma main_exec_sys_exit:
  "user s = U_Idle \<Longrightarrow> main_exec (M_Exit x, s) (map Sys as) = Some (pc', s') \<Longrightarrow>
   pc' = M_Exit x \<and> user s' = U_Idle \<and> should_stop s' = should_stop s"
proof (induction as arbitrary: s)
  case Nil
  then show ?case by simp
next
  case (Cons a as)
  obtain c1 where c1: "main_step (M_Exit x, s) (Sys a) = Some c1"
    and ex1: "main_exec c1 (map Sys as) = Some (pc', s')"
    using Cons.prems(2) by (cases "main_step (M_Exit x, s) (Sys a)") (simp_all del: main_step.simps)
  obtain p1 s1 where p1: "c1 = (p1, s1)"
    by (cases c1)
  have ms: "step s a = Some s1 \<and> p1 = M_Exit x \<and> a \<noteq> Call_run \<and> a \<noteq> Call_stop"
    using main_step_Sys [of "M_Exit x" s a p1 s1] c1 p1 by (simp del: main_step.simps)
  then have a: "a \<noteq> Call_run" "a \<noteq> Call_stop" and s1: "step s a = Some s1"
    by simp_all
  have ex: "main_exec (M_Exit x, s1) (map Sys as) = Some (pc', s')"
    using ex1 p1 ms by simp
  have "user s1 = U_Idle \<and> should_stop s1 = should_stop s"
    using sys_step_main [OF s1 a Cons.prems(1)] by simp
  then show ?case
    using Cons.IH [OF _ ex] by simp
qed

lemma main_exec_append:
  "main_exec c (xs @ ys) = (case main_exec c xs of None \<Rightarrow> None | Some c' \<Rightarrow> main_exec c' ys)"
  by (induction xs arbitrary: c) (simp_all split: option.split)

lemma main_exec_reach: "main_reach c \<Longrightarrow> main_exec c as = Some c' \<Longrightarrow> main_reach c'"
  by (induction as arbitrary: c) (auto split: option.splits intro: main_reach.step)

section \<open>Properties of the launcher\<close>

text \<open>
  C8: An interrupt (\<open>KeyboardInterrupt\<close>, Ctrl-C) while the main thread sleeps is
  not an \<open>Exception\<close>: the main thread leaves without calling \<open>stop\<close>, and
  whatever the other threads do afterwards, \<open>should_stop\<close> stays clear, so the
  acceptance loop and the forwarders keep running.
\<close>

theorem interrupt_skips_stop:
  assumes "main_reach (M_Sleep, s)"
    and "main_exec (M_Sleep, s) (Main (Signal KeyboardInterrupt) # map Sys as) = Some (pc', s')"
  shows "pc' = M_Exit (Some KeyboardInterrupt) \<and> \<not> should_stop s'"
proof -
  have inv: "\<not> should_stop s" "user s = U_Idle"
    using main_reach_inv [OF assms(1)] by (simp_all add: main_inv_def)
  have "main_exec (M_Exit (Some KeyboardInterrupt), s) (map Sys as) = Some (pc', s')"
    using assms(2) by simp
  then show ?thesis
    using main_exec_sys_exit [OF inv(2)] inv(1) by blast
qed

text \<open>
  C10: An \<open>Exception\<close> raised while the main thread sleeps makes it call \<open>stop\<close>
  on the running proxy: the flag is set and the main thread starts joining the
  forwarders of the current list.
\<close>

theorem exception_calls_stop:
  assumes "main_reach (M_Sleep, s)" and "proxy_threads s = Some L"
  shows "main_step (M_Sleep, s) (Main (Signal (Py_exc e))) =
           Some (M_Stopping, s\<lparr>should_stop := True, user := U_Join L 0, last_exc := None\<rparr>)"
proof -
  have "\<not> should_stop s"
    using main_reach_inv [OF assms(1)] by (simp add: main_inv_def)
  then show ?thesis
    using assms(2) by (simp add: stop_def)
qed

text \<open>
  C11: At start-up the only exception \<open>run\<close> raises is the one of opening the
  listening socket, and it ends the process: the guard against a second \<open>run\<close>
  never fires from \<open>main\<close>.
\<close>

theorem startup_error_is_listen_error:
  assumes "main_reach (M_Run, s)"
    and "main_step (M_Run, s) (Main Main_run) = Some (M_Exit x, s')"
  shows "\<exists>e. x = Some (Py_exc e) \<and> listen_tcp (listen_addr s) 100 (os s) = Inl e"
proof -
  have "\<not> should_stop s"
    using main_reach_inv [OF assms(1)] by (simp add: main_inv_def)
  then show ?thesis
    using assms(2) by (auto simp: run_def split: sum.splits)
qed

end
