(* ===== verification/Print.thy ===== *)
theory Print
  imports Address
begin

text \<open>
  The text line 91 of \<open>src/hoodproxy/types.py\<close> prints for every non-empty
  chunk \<open>msg\<close>: the two endpoint labels, \<open>{msg}\<close> (Python's
  \<open>bytes.__repr__\<close>), and \<open>msg.decode(errors='ignore')\<close> (CPython's UTF-8
  decoder, which drops every maximal invalid subpart). A Python \<open>str\<close> is a list of
  Unicode code points. The theory bounds the length of the printed text by the
  length of the chunk; the bound on every printed chunk of a run is in \<open>Runs\<close>.
\<close>

unbundle bit_operations_syntax

type_synonym ustr = "nat list"

section \<open>Printing a chunk: \<open>bytes.__repr__\<close>\<close>

text \<open>
  CPython's \<open>PyBytes_Repr\<close>: the quote is \<open>'\<close> unless the bytes contain \<open>'\<close>
  and no \<open>"\<close>; the quote and the backslash are escaped, tab, newline and carriage
  return are written as a backslash and \<open>t\<close>, \<open>n\<close>, \<open>r\<close>, other bytes below 32 or
  from 127 as a backslash, \<open>x\<close> and two lowercase hex digits of \<open>(c & 0xf0) >> 4\<close> and \<open>c & 0xf\<close>.
\<close>

definition hex_digit :: "nat \<Rightarrow> nat" where
  "hex_digit d = (if d < 10 then 48 + d else 87 + d)"

definition repr_quote :: "bytes \<Rightarrow> nat" where
  "repr_quote m = (if 39 \<in> unat ` set m \<and> 34 \<notin> unat ` set m then 34 else 39)"

definition repr_byte :: "nat \<Rightarrow> byte \<Rightarrow> ustr" where
  "repr_byte q b =
     (let c = unat b in
      if c = q \<or> c = 92 then [92, c]
      else if c = 9 then [92, 116]
      else if c = 10 then [92, 110]
      else if c = 13 then [92, 114]
      else if c < 32 \<or> 127 \<le> c
        then [92, 120, hex_digit (unat (drop_bit 4 (b AND 0xF0))), hex_digit (unat (b AND 0xF))]
      else [c])"

definition bytes_repr :: "bytes \<Rightarrow> ustr" where
  "bytes_repr m = (let q = repr_quote m in 98 # q # concat (map (repr_byte q) m) @ [q])"

section \<open>Decoding a chunk: \<open>bytes.decode(errors='ignore')\<close>\<close>

text \<open>
  CPython's UTF-8 decoder (\<open>Objects/stringlib/codecs.h\<close>): a lead byte announces a
  sequence of 2, 3 or 4 bytes (\<open>seq_len\<close>, 0 for an invalid lead); the second
  byte's range depends on the lead (\<open>second_ok\<close>, which excludes overlong forms,
  surrogates and code points above U+10FFFF); the others are continuation bytes.
  At an error the decoder drops the maximal valid prefix of the sequence
  (\<open>endinpos = startinpos + ch - 1\<close>) and resumes after it; a truncated sequence
  at the end is dropped.
\<close>

definition cont :: "nat \<Rightarrow> bool" where
  "cont c \<longleftrightarrow> 128 \<le> c \<and> c < 192"

definition seq_len :: "nat \<Rightarrow> nat" where
  "seq_len b =
     (if b < 128 then 1 else if 194 \<le> b \<and> b < 224 then 2 else if 224 \<le> b \<and> b < 240 then 3
      else if 240 \<le> b \<and> b < 245 then 4 else 0)"

definition second_ok :: "nat \<Rightarrow> nat \<Rightarrow> bool" where
  "second_ok b c \<longleftrightarrow>
     (if b = 224 then 160 \<le> c \<and> c < 192
      else if b = 237 then 128 \<le> c \<and> c < 160
      else if b = 240 then 144 \<le> c \<and> c < 192
      else if b = 244 then 128 \<le> c \<and> c < 144
      else cont c)"

fun utf8_ignore :: "nat list \<Rightarrow> nat list" where
  "utf8_ignore [] = []"
| "utf8_ignore (b # bs) =
     (if b < 128 then b # utf8_ignore bs
      else if seq_len b = 0 then utf8_ignore bs
      else case bs of
        [] \<Rightarrow> []
      | c # r \<Rightarrow>
          if \<not> second_ok b c then utf8_ignore bs
          else if seq_len b = 2 then (64 * (b - 192) + (c - 128)) # utf8_ignore r
          else case r of
            [] \<Rightarrow> []
          | d # r2 \<Rightarrow>
              if \<not> cont d then utf8_ignore r
              else if seq_len b = 3 then (4096 * (b - 224) + 64 * (c - 128) + (d - 128)) # utf8_ignore r2
              else case r2 of
                [] \<Rightarrow> []
              | e # r3 \<Rightarrow>
                  if \<not> cont e then utf8_ignore r2
                  else (262144 * (b - 240) + 4096 * (c - 128) + 64 * (d - 128) + (e - 128)) # utf8_ignore r3)"

definition decode_ignore :: "bytes \<Rightarrow> ustr" where
  "decode_ignore m = utf8_ignore (map unat m)"

section \<open>The printed text of line 91\<close>

definition of_string :: "string \<Rightarrow> ustr" where
  "of_string s = map of_char s"

text \<open>
  The labels: \<open>self.dest_addr\<close> is printed by the dataclass \<open>__repr__\<close> of
  \<open>IPV4Target\<close>, which shows its field with \<open>IPV4Address.__repr__\<close>; the client's
  \<open>addr\<close> returned by \<open>accept()\<close> is a tuple of a dotted IPv4 host and a port,
  printed \<open>('host', port)\<close> (the host has no character that \<open>repr\<close> escapes).
\<close>

definition target_label :: "IPV4Target \<Rightarrow> ustr" where
  "target_label t = of_string (''IPV4Target(address='' @ addr_repr (address t) @ '')'')"

definition peer_label :: "string \<Rightarrow> int \<Rightarrow> ustr" where
  "peer_label h p = of_string ''('' @ [39] @ of_string h @ [39] @ of_string ('', '' @ str_int p @ '')'')"

definition chunk_text :: "ustr \<Rightarrow> ustr \<Rightarrow> bytes \<Rightarrow> ustr" where
  "chunk_text src dst msg =
     of_string ''['' @ src @ of_string '' -> '' @ dst @ of_string '']'' @ [10] @
     of_string ''Bytes:'' @ [10] @ bytes_repr msg @ [10] @
     of_string ''Decoded:'' @ [10] @ decode_ignore msg @ [10]"

section \<open>A reference decoder\<close>

text \<open>
  The textbook UTF-8 decoder, which skips one byte at each error (\<open>utf8_seq\<close>
  reads one well-formed sequence, Table 3-7 of the Unicode standard). It computes
  the same text as CPython's decoder and is the easier one to measure.
\<close>

definition utf8_seq :: "nat \<Rightarrow> nat list \<Rightarrow> (nat \<times> nat) option" where
  "utf8_seq b bs =
     (let n = seq_len b in
      if b < 128 then Some (b, 0)
      else if n = 0 \<or> length bs < n - 1 then None
      else if second_ok b (hd bs) \<and> list_all cont (take (n - 2) (tl bs))
      then Some (foldl (\<lambda>acc c. 64 * acc + (c - 128)) (b - (256 - 2 ^ (8 - n))) (take (n - 1) bs), n - 1)
      else None)"

fun utf8_ref :: "nat list \<Rightarrow> nat list" where
  "utf8_ref [] = []"
| "utf8_ref (b # bs) =
     (case utf8_seq b bs of None \<Rightarrow> utf8_ref bs | Some (c, n) \<Rightarrow> c # utf8_ref (drop n bs))"

section \<open>UTF-8 sequences\<close>

lemma utf8_ref_cont: "cont c \<Longrightarrow> utf8_ref (c # r) = utf8_ref r"
  by (simp add: utf8_seq_def seq_len_def cont_def)

lemma second_ok_cont: "second_ok b c \<Longrightarrow> cont c"
  by (auto simp: second_ok_def cont_def split: if_splits)

lemma seq_len_cases:
  "b < 128 \<or> (128 \<le> b \<and> seq_len b = 0) \<or> (128 \<le> b \<and> seq_len b = 2) \<or>
   (128 \<le> b \<and> seq_len b = 3) \<or> (128 \<le> b \<and> seq_len b = 4)"
  by (simp add: seq_len_def)

lemma utf8_seq_Nil: "128 \<le> b \<Longrightarrow> utf8_seq b [] = None"
  by (simp add: utf8_seq_def Let_def seq_len_def)

lemma utf8_seq_2:
  "seq_len b = 2 \<Longrightarrow> 128 \<le> b \<Longrightarrow>
   utf8_seq b (c # r) = (if second_ok b c then Some (64 * (b - 192) + (c - 128), 1) else None)"
  by (simp add: utf8_seq_def)

lemma utf8_seq_3:
  "seq_len b = 3 \<Longrightarrow> 128 \<le> b \<Longrightarrow>
   utf8_seq b (c # d # r) =
     (if second_ok b c \<and> cont d then Some (4096 * (b - 224) + 64 * (c - 128) + (d - 128), 2) else None)"
  "seq_len b = 3 \<Longrightarrow> 128 \<le> b \<Longrightarrow> utf8_seq b [c] = None"
  by (simp_all add: utf8_seq_def algebra_simps)

lemma utf8_seq_4:
  "seq_len b = 4 \<Longrightarrow> 128 \<le> b \<Longrightarrow>
   utf8_seq b (c # d # e # r) =
     (if second_ok b c \<and> cont d \<and> cont e
      then Some (262144 * (b - 240) + 4096 * (c - 128) + 64 * (d - 128) + (e - 128), 3) else None)"
  "seq_len b = 4 \<Longrightarrow> 128 \<le> b \<Longrightarrow> utf8_seq b [c] = None"
  "seq_len b = 4 \<Longrightarrow> 128 \<le> b \<Longrightarrow> utf8_seq b [c, d] = None"
  by (simp_all add: utf8_seq_def algebra_simps)

lemma utf8_seq_bad: "128 \<le> b \<Longrightarrow> \<not> second_ok b c \<Longrightarrow> utf8_seq b (c # r) = None"
  by (simp add: utf8_seq_def Let_def)

lemma utf8_seq_bad2: "128 \<le> b \<Longrightarrow> 3 \<le> seq_len b \<Longrightarrow> \<not> cont d \<Longrightarrow> utf8_seq b (c # d # r) = None"
  by (simp add: utf8_seq_def Let_def take_Cons')

lemmas utf8_seq_simps = utf8_seq_Nil utf8_seq_2 utf8_seq_3 utf8_seq_4

text \<open>The maximal-subpart decoder and the one-byte-skip decoder agree.\<close>

lemma utf8_ignore_ref: "utf8_ignore bs = utf8_ref bs"
proof (induction bs rule: utf8_ignore.induct)
  case 1
  then show ?case by simp
next
  case (2 b bs)
  have ref: "utf8_ref (b # bs) = (case utf8_seq b bs of None \<Rightarrow> utf8_ref bs | Some (c, n) \<Rightarrow> c # utf8_ref (drop n bs))"
    by (rule utf8_ref.simps(2))
  consider "b < 128" | "128 \<le> b" "seq_len b = 0" | "128 \<le> b" "seq_len b = 2"
    | "128 \<le> b" "seq_len b = 3" | "128 \<le> b" "seq_len b = 4"
    using seq_len_cases [of b] by (elim disjE conjE) simp_all
  then show ?case
  proof cases
    case 1
    then show ?thesis using "2.IH"(1) by (simp add: utf8_seq_def)
  next
    case 2
    then show ?thesis using "2.IH"(2) by (simp add: utf8_seq_def)
  next
    case 3
    show ?thesis
    proof (cases bs)
      case Nil
      then show ?thesis using 3 ref by (simp add: utf8_seq_Nil)
    next
      case (Cons c r)
      then show ?thesis using 3 ref "2.IH"(3,4) by (simp add: utf8_seq_2)
    qed
  next
    case 4
    show ?thesis
    proof (cases bs)
      case Nil
      then show ?thesis using 4 ref by (simp add: utf8_seq_Nil)
    next
      case (Cons c r)
      note c = this
      show ?thesis
      proof (cases "second_ok b c")
        case False
        then show ?thesis using 4 ref c "2.IH"(3) by (simp add: utf8_seq_bad del: utf8_ref.simps)
      next
        case True
        then have cc: "cont c" by (rule second_ok_cont)
        show ?thesis
        proof (cases r)
          case Nil
          then show ?thesis using 4 ref c True utf8_ref_cont [OF cc] by (simp del: utf8_ref.simps add: utf8_seq_3 utf8_ref.simps(1))
        next
          case (Cons d r2)
          then show ?thesis using 4 ref c True "2.IH"(5,6) utf8_ref_cont [OF cc]
            by (simp del: utf8_ref.simps add: utf8_seq_3 utf8_ref.simps(1))
        qed
      qed
    qed
  next
    case 5
    show ?thesis
    proof (cases bs)
      case Nil
      then show ?thesis using 5 ref by (simp add: utf8_seq_Nil)
    next
      case (Cons c r)
      note c = this
      show ?thesis
      proof (cases "second_ok b c")
        case False
        then show ?thesis using 5 ref c "2.IH"(3) by (simp add: utf8_seq_bad del: utf8_ref.simps)
      next
        case True
        then have cc: "cont c" by (rule second_ok_cont)
        show ?thesis
        proof (cases r)
          case Nil
          then show ?thesis using 5 ref c True utf8_ref_cont [OF cc] by (simp del: utf8_ref.simps add: utf8_seq_4 utf8_ref.simps(1))
        next
          case (Cons d r2)
          note d = this
          show ?thesis
          proof (cases "cont d")
            case False
            then show ?thesis using 5 ref c d True "2.IH"(5) utf8_ref_cont [OF cc]
              by (simp del: utf8_ref.simps add: utf8_seq_bad2)
          next
            case cd: True
            show ?thesis
            proof (cases r2)
              case Nil
              then show ?thesis using 5 ref c d True cd utf8_ref_cont [OF cc] utf8_ref_cont [OF cd]
                by (simp del: utf8_ref.simps add: utf8_seq_4 utf8_ref.simps(1))
            next
              case (Cons e r3)
              then show ?thesis using 5 ref c d True cd "2.IH"(7,8) utf8_ref_cont [OF cc] utf8_ref_cont [OF cd]
                by (simp del: utf8_ref.simps add: utf8_seq_4 utf8_ref.simps(1))
            qed
          qed
        qed
      qed
    qed
  qed
qed

section \<open>Lengths\<close>

lemma length_utf8_ref: "length (utf8_ref bs) \<le> length bs"
proof (induction bs rule: utf8_ref.induct)
  case 1
  then show ?case by simp
next
  case (2 b bs)
  show ?case
  proof (cases "utf8_seq b bs")
    case None
    then show ?thesis using "2.IH"(1) by simp
  next
    case (Some p)
    obtain c n where p: "p = (c, n)" by (cases p)
    then have "length (utf8_ref (drop n bs)) \<le> length (drop n bs)"
      using "2.IH"(2) Some by blast
    then show ?thesis using Some p by simp
  qed
qed

lemma length_utf8_ignore: "length (utf8_ignore bs) \<le> length bs"
  using length_utf8_ref [of bs] by (simp add: utf8_ignore_ref)

lemma length_repr_byte: "length (repr_byte q b) \<le> 4"
  by (simp add: repr_byte_def Let_def)

lemma length_bytes_repr: "length (bytes_repr m) \<le> 4 * length m + 3"
proof -
  have "length (concat (map (repr_byte q) m)) \<le> 4 * length m" for q
    using length_repr_byte [of q] by (induction m) (simp_all add: add_mono)
  then show ?thesis
    by (simp add: bytes_repr_def Let_def)
qed

lemma length_chunk_text:
  "length (chunk_text src dst m) \<le> length src + length dst + 28 + 5 * length m"
  using length_utf8_ignore [of "map unat m"] length_bytes_repr [of m]
  by (simp add: chunk_text_def of_string_def decode_ignore_def)

end
