(* ===== verification/Runs.thy ===== *)
theory Runs
  imports Relay Launcher Print
begin

text \<open>
  Concrete runs of the proxy, computed by the simplifier: a proxy listening on
  127.0.0.1:18080 that forwards to 127.0.0.1:9000, in a process that holds no port
  yet, and the states a few actions lead to. The witnesses of the claims apply the
  claims' theorems to these states.
\<close>

section \<open>Demo configuration\<close>

definition demo_listen :: IPV4Address where
  "demo_listen = \<lparr>ip = ''127.0.0.1'', port = 18080\<rparr>"

definition demo_dest :: IPV4Target where
  "demo_dest = \<lparr>address = \<lparr>ip = ''127.0.0.1'', port = 9000\<rparr>\<rparr>"

definition demo_init :: sys where
  "demo_init = TCPProxy_init demo_listen demo_dest (init_os [] [''127.0.0.1''])"

text \<open>The same proxy asking the kernel for a port (\<open>--listen-port 0\<close>).\<close>

definition demo0_init :: sys where
  "demo0_init = TCPProxy_init \<lparr>ip = ''127.0.0.1'', port = 0\<rparr> demo_dest (init_os [] [''127.0.0.1''])"

text \<open>
  A client connects and the acceptance thread runs through lines 68-78 once: both
  forwarding threads are started (\<open>setup_run\<close>). From there: the client sends two
  bytes, the first thread reads both with one \<open>recv\<close> and the kernel takes one of
  them in its \<open>send\<close> (\<open>loss_run\<close>) or both (\<open>exact_run\<close>); \<open>stop\<close> after both
  threads saw the flag (\<open>join_run\<close>); \<open>stop\<close> while the first thread is in
  \<open>recv\<close> (\<open>block_run\<close>); the client closes its side while the first thread is
  in \<open>recv\<close> (\<open>spin_run\<close>). \<open>rt_run\<close> calls \<open>stop\<close> between line 76 and line 77;
  \<open>stopped_run\<close> returns from \<open>stop\<close> while the acceptance thread is past its flag
  test, and \<open>late_actions\<close> then bring in a client.
\<close>

definition setup_run :: "action list" where
  "setup_run = [Call_run, Client_connect 0, Acc_step 0 False, Acc_step 0 False, Acc_step 0 False, Acc_step 0 False,
     Acc_step 0 False, Acc_step 0 False, Acc_step 0 False, Acc_step 0 False]"

definition connect_run :: "action list" where
  "connect_run = setup_run @ [Peer_send 0 [1, 2], Fwd_step 0 0, Fwd_step 0 2]"

definition loss_run :: "action list" where
  "loss_run = connect_run @ [Fwd_step 0 1]"

definition exact_run :: "action list" where
  "exact_run = connect_run @ [Fwd_step 0 2]"

definition join_run :: "action list" where
  "join_run = setup_run @ [Call_stop, Fwd_step 0 0, Fwd_step 1 0, Stop_step, Stop_step]"

definition block_run :: "action list" where
  "block_run = setup_run @ [Fwd_step 0 0, Call_stop]"

definition spin_run :: "action list" where
  "spin_run = setup_run @ [Fwd_step 0 0, Peer_close 0]"

definition rt_run :: "action list" where
  "rt_run = [Call_run, Client_connect 0, Acc_step 0 False, Acc_step 0 False, Acc_step 0 False,
     Acc_step 0 False, Acc_step 0 False, Acc_step 0 False, Call_stop, Stop_step]"

definition stopped_run :: "action list" where
  "stopped_run = [Call_run, Acc_step 0 False, Call_stop, Stop_step, Stop_step]"

definition late_actions :: "action list" where
  "late_actions = [Client_connect 0, Acc_step 0 False, Acc_step 0 False, Acc_step 0 False, Acc_step 0 False,
     Acc_step 0 False, Acc_step 0 False, Acc_step 0 False]"

definition join_state :: sys where "join_state = the (exec demo_init join_run)"
definition block_state :: sys where "block_state = the (exec demo_init block_run)"
definition spin_state :: sys where "spin_state = the (exec demo_init spin_run)"
definition rt_state :: sys where "rt_state = the (exec demo_init rt_run)"
definition stopped_state :: sys where "stopped_state = the (exec demo_init stopped_run)"
definition late_state :: sys where "late_state = the (exec demo_init (stopped_run @ late_actions))"

definition loss_state :: sys where
  "loss_state = the (exec demo_init loss_run)"

definition exact_state :: sys where
  "exact_state = the (exec_by full_sends demo_init exact_run)"

definition joinable_run :: "action list" where
  "joinable_run = setup_run @ [Call_stop, Fwd_step 0 0, Fwd_step 1 0]"

definition joinable_state :: sys where "joinable_state = the (exec demo_init joinable_run)"

text \<open>
  \<open>connect_state\<close>: the first thread holds the chunk \<open>[1, 2]\<close> it received.
  \<open>pending_state\<close>: \<open>stop\<close> has returned, the acceptance thread is still blocked in
  \<open>accept()\<close>, and a client is in the listener's queue; \<open>accepted_os\<close> and
  \<open>served_os\<close> are the kernel after \<open>accept()\<close> and after the connection to the
  destination.
\<close>

definition connect_state :: sys where "connect_state = the (exec demo_init connect_run)"

definition pending_state :: sys where
  "pending_state = the (exec demo_init (stopped_run @ [Client_connect 0]))"

definition accepted_os :: os_state where
  "accepted_os = snd (the (sock_accept 0 (os pending_state)))"

definition served_os :: os_state where
  "served_os = accepted_os\<lparr>socks := socks accepted_os @ [new_sock]\<rparr>"

text \<open>
  The launcher started as \<open>hoodproxy --listen-ip 127.0.0.1 --listen-port 18080
  --dest-ip 127.0.0.1 --dest-port 9000\<close>, and with a listen address the host does
  not have (\<open>bad_args\<close>). \<open>sleep_state\<close> is the proxy after \<open>run\<close>, while the main
  thread sleeps; in \<open>serving_state\<close> a client has connected and both forwarding
  threads run. An interrupt then arrives, and another client connects and is
  accepted while the process waits for the forwarders.
\<close>

definition demo_args :: main_args where
  "demo_args = \<lparr>listen_ip = ''127.0.0.1'', listen_port = 18080, dest_ip = ''127.0.0.1'', dest_port = 9000\<rparr>"

definition bad_args :: main_args where
  "bad_args = \<lparr>listen_ip = ''10.0.0.1'', listen_port = 18080, dest_ip = ''127.0.0.1'', dest_port = 9000\<rparr>"

definition main_init :: "main_pc \<times> sys" where
  "main_init = (M_Run, main_proxy demo_args (init_os [] [''127.0.0.1'']))"

definition sleep_state :: sys where
  "sleep_state = snd (the (main_exec main_init [Main Main_run]))"

definition serve_actions :: "action list" where
  "serve_actions = [Client_connect 0, Acc_step 0 False, Acc_step 0 False, Acc_step 0 False, Acc_step 0 False,
     Acc_step 0 False, Acc_step 0 False, Acc_step 0 False, Acc_step 0 False]"

definition serving_state :: sys where
  "serving_state = snd (the (main_exec main_init (Main Main_run # map Sys serve_actions)))"

definition interrupt_actions :: "action list" where
  "interrupt_actions = [Client_connect 0, Acc_step 0 False, Acc_step 0 False, Acc_step 0 False]"

definition interrupted_state :: sys where
  "interrupted_state =
     snd (the (main_exec (M_Sleep, serving_state) (Main (Signal KeyboardInterrupt) # map Sys interrupt_actions)))"

lemmas demo_defs = demo_listen_def demo_dest_def demo_init_def demo0_init_def
  TCPProxy_init_def init_os_def

lemmas run_defs = run_call_def run_def listen_tcp_def host_ok_def stop_def stop_join_step_def
  accept_step_def set_acc_def start_thread_def client_connect_def sock_accept_def
  connect_tcp_def new_sock_def upd_sock_def peer_send_def peer_close_def peer_reset_def
  fwd_sys_step_def forward_step_def sock_recv_def sock_send_def recv_bufsize_def fresh_port_def

section \<open>Reachability of the demo runs\<close>

lemma the_some: "map_option g x = Some v \<Longrightarrow> x = Some (the x) \<and> g (the x) = v"
  by (cases x) simp_all

lemma the_exec:
  "map_option g (exec s as) = Some v \<Longrightarrow> exec s as = Some (the (exec s as)) \<and> g (the (exec s as)) = v"
  by (cases "exec s as") simp_all

lemma join_state:
  "exec demo_init join_run = Some join_state \<and>
   (user join_state, map fpc (fwds join_state), list_heap join_state) = (U_Join 0 2, [F_Done, F_Done], [[0, 1]])"
proof -
  have "map_option (\<lambda>s. (user s, map fpc (fwds s), list_heap s)) (exec demo_init join_run) =
        Some (U_Join 0 2, [F_Done, F_Done], [[0, 1]])"
    by (simp add: join_run_def setup_run_def demo_defs run_defs)
  then show ?thesis
    unfolding join_state_def by (rule the_exec)
qed

lemma block_state:
  "exec demo_init block_run = Some block_state \<and>
   (user block_state, fwds block_state, socks (os block_state), list_heap block_state) =
   (U_Join 0 0, [\<lparr>fsrc = 0, fdst = 1, fpc = F_Recv\<rparr>, \<lparr>fsrc = 1, fdst = 0, fpc = F_Top\<rparr>],
    [\<lparr>rx = [], rx_total = [], rx_eof = False, tx = [], reset = False\<rparr>,
     \<lparr>rx = [], rx_total = [], rx_eof = False, tx = [], reset = False\<rparr>], [[0, 1]])"
proof -
  have "map_option (\<lambda>s. (user s, fwds s, socks (os s), list_heap s)) (exec demo_init block_run) =
        Some (U_Join 0 0, [\<lparr>fsrc = 0, fdst = 1, fpc = F_Recv\<rparr>, \<lparr>fsrc = 1, fdst = 0, fpc = F_Top\<rparr>],
    [\<lparr>rx = [], rx_total = [], rx_eof = False, tx = [], reset = False\<rparr>,
     \<lparr>rx = [], rx_total = [], rx_eof = False, tx = [], reset = False\<rparr>], [[0, 1]])"
    by (simp add: block_run_def setup_run_def demo_defs run_defs)
  then show ?thesis
    unfolding block_state_def by (rule the_exec)
qed

lemma spin_state:
  "exec demo_init spin_run = Some spin_state \<and>
   (should_stop spin_state, fwds spin_state, socks (os spin_state)) =
   (False, [\<lparr>fsrc = 0, fdst = 1, fpc = F_Recv\<rparr>, \<lparr>fsrc = 1, fdst = 0, fpc = F_Top\<rparr>],
    [\<lparr>rx = [], rx_total = [], rx_eof = True, tx = [], reset = False\<rparr>,
     \<lparr>rx = [], rx_total = [], rx_eof = False, tx = [], reset = False\<rparr>])"
proof -
  have "map_option (\<lambda>s. (should_stop s, fwds s, socks (os s))) (exec demo_init spin_run) =
        Some (False, [\<lparr>fsrc = 0, fdst = 1, fpc = F_Recv\<rparr>, \<lparr>fsrc = 1, fdst = 0, fpc = F_Top\<rparr>],
    [\<lparr>rx = [], rx_total = [], rx_eof = True, tx = [], reset = False\<rparr>,
     \<lparr>rx = [], rx_total = [], rx_eof = False, tx = [], reset = False\<rparr>])"
    by (simp add: spin_run_def setup_run_def demo_defs run_defs)
  then show ?thesis
    unfolding spin_state_def by (rule the_exec)
qed

lemma rt_state:
  "exec demo_init rt_run = Some rt_state \<and>
   (should_stop rt_state, user rt_state, last_exc rt_state, map fpc (fwds rt_state)) =
   (True, U_Idle, Some (RuntimeError ''cannot join thread before it is started''), [F_New, F_New])"
proof -
  have "map_option (\<lambda>s. (should_stop s, user s, last_exc s, map fpc (fwds s))) (exec demo_init rt_run) =
        Some (True, U_Idle, Some (RuntimeError ''cannot join thread before it is started''), [F_New, F_New])"
    by (simp add: rt_run_def demo_defs run_defs)
  then show ?thesis
    unfolding rt_state_def by (rule the_exec)
qed

lemma stopped_state:
  "exec demo_init stopped_run = Some stopped_state \<and>
   (should_stop stopped_state, user stopped_state, last_exc stopped_state, acceptors stopped_state) =
   (True, U_Idle, None, [A_Accept])"
proof -
  have "map_option (\<lambda>s. (should_stop s, user s, last_exc s, acceptors s)) (exec demo_init stopped_run) =
        Some (True, U_Idle, None, [A_Accept])"
    by (simp add: stopped_run_def demo_defs run_defs)
  then show ?thesis
    unfolding stopped_state_def by (rule the_exec)
qed

lemma late_state:
  "exec demo_init (stopped_run @ late_actions) = Some late_state \<and>
   (map fpc (fwds late_state), length (socks (os late_state)), list_heap late_state, user late_state) =
   ([F_Top, F_Top], 2, [[], [0, 1]], U_Idle)"
proof -
  have "map_option (\<lambda>s. (map fpc (fwds s), length (socks (os s)), list_heap s, user s))
          (exec demo_init (stopped_run @ late_actions)) = Some ([F_Top, F_Top], 2, [[], [0, 1]], U_Idle)"
    by (simp add: stopped_run_def late_actions_def demo_defs run_defs)
  then show ?thesis
    unfolding late_state_def by (rule the_exec)
qed

lemma loss_run_result:
  "map_option (\<lambda>s. (fwds s, socks (os s), printed s)) (exec demo_init loss_run) =
   Some ([\<lparr>fsrc = 0, fdst = 1, fpc = F_Top\<rparr>, \<lparr>fsrc = 1, fdst = 0, fpc = F_Top\<rparr>],
         [\<lparr>rx = [], rx_total = [1, 2], rx_eof = False, tx = [], reset = False\<rparr>,
          \<lparr>rx = [], rx_total = [], rx_eof = False, tx = [1], reset = False\<rparr>],
         [(0, [1, 2])])"
  by (simp add: loss_run_def connect_run_def setup_run_def demo_defs run_defs)

lemma loss_state:
  "exec demo_init loss_run = Some loss_state \<and>
   fwds loss_state = [\<lparr>fsrc = 0, fdst = 1, fpc = F_Top\<rparr>, \<lparr>fsrc = 1, fdst = 0, fpc = F_Top\<rparr>] \<and>
   socks (os loss_state) = [\<lparr>rx = [], rx_total = [1, 2], rx_eof = False, tx = [], reset = False\<rparr>,
                            \<lparr>rx = [], rx_total = [], rx_eof = False, tx = [1], reset = False\<rparr>] \<and>
   printed loss_state = [(0, [1, 2])]"
  using loss_run_result by (cases "exec demo_init loss_run") (simp_all add: loss_state_def)

lemma exact_run_result:
  "map_option (\<lambda>s. (fwds s, socks (os s))) (exec_by full_sends demo_init exact_run) =
   Some ([\<lparr>fsrc = 0, fdst = 1, fpc = F_Top\<rparr>, \<lparr>fsrc = 1, fdst = 0, fpc = F_Top\<rparr>],
         [\<lparr>rx = [], rx_total = [1, 2], rx_eof = False, tx = [], reset = False\<rparr>,
          \<lparr>rx = [], rx_total = [], rx_eof = False, tx = [1, 2], reset = False\<rparr>])"
  by (simp add: exact_run_def connect_run_def setup_run_def demo_defs run_defs full_sends_def whole_send_def)

lemma exact_state:
  "exec_by full_sends demo_init exact_run = Some exact_state \<and>
   fwds exact_state = [\<lparr>fsrc = 0, fdst = 1, fpc = F_Top\<rparr>, \<lparr>fsrc = 1, fdst = 0, fpc = F_Top\<rparr>] \<and>
   socks (os exact_state) = [\<lparr>rx = [], rx_total = [1, 2], rx_eof = False, tx = [], reset = False\<rparr>,
                            \<lparr>rx = [], rx_total = [], rx_eof = False, tx = [1, 2], reset = False\<rparr>]"
  using exact_run_result by (cases "exec_by full_sends demo_init exact_run") (simp_all add: exact_state_def)

lemma demo_init_reachable: "reachable demo_init"
  unfolding demo_init_def by (rule reachable_by.init)

lemma demo0_init_reachable: "reachable demo0_init"
  unfolding demo0_init_def by (rule reachable_by.init)

lemma demo_exec_reachable: "exec demo_init as = Some s \<Longrightarrow> reachable s"
  by (rule exec_reachable [OF demo_init_reachable])

lemma demo0_exec_reachable: "exec demo0_init as = Some s \<Longrightarrow> reachable s"
  by (rule exec_reachable [OF demo0_init_reachable])

lemma loss_state_reachable: "reachable loss_state"
  using demo_exec_reachable loss_state by blast

lemma exact_state_reachable: "reachable_by full_sends exact_state"
proof -
  have "reachable_by full_sends demo_init"
    unfolding demo_init_def by (rule reachable_by.init)
  then show ?thesis
    using exec_by_reachable exact_state by blast
qed

lemma joinable_state:
  "exec demo_init joinable_run = Some joinable_state \<and>
   (user joinable_state, map fpc (fwds joinable_state), list_heap joinable_state) =
   (U_Join 0 0, [F_Done, F_Done], [[0, 1]])"
proof -
  have "map_option (\<lambda>s. (user s, map fpc (fwds s), list_heap s)) (exec demo_init joinable_run) =
        Some (U_Join 0 0, [F_Done, F_Done], [[0, 1]])"
    by (simp add: joinable_run_def setup_run_def demo_defs run_defs)
  then show ?thesis
    unfolding joinable_state_def by (rule the_exec)
qed

lemma joinable_state_reachable: "reachable joinable_state"
  using demo_exec_reachable joinable_state by blast

lemma connect_state:
  "exec demo_init connect_run = Some connect_state \<and>
   (fwds connect_state, socks (os connect_state)) =
   ([\<lparr>fsrc = 0, fdst = 1, fpc = F_Send [1, 2]\<rparr>, \<lparr>fsrc = 1, fdst = 0, fpc = F_Top\<rparr>],
    [\<lparr>rx = [], rx_total = [1, 2], rx_eof = False, tx = [], reset = False\<rparr>,
     \<lparr>rx = [], rx_total = [], rx_eof = False, tx = [], reset = False\<rparr>])"
proof -
  have "map_option (\<lambda>s. (fwds s, socks (os s))) (exec demo_init connect_run) =
        Some ([\<lparr>fsrc = 0, fdst = 1, fpc = F_Send [1, 2]\<rparr>, \<lparr>fsrc = 1, fdst = 0, fpc = F_Top\<rparr>],
    [\<lparr>rx = [], rx_total = [1, 2], rx_eof = False, tx = [], reset = False\<rparr>,
     \<lparr>rx = [], rx_total = [], rx_eof = False, tx = [], reset = False\<rparr>])"
    by (simp add: connect_run_def setup_run_def demo_defs run_defs)
  then show ?thesis
    unfolding connect_state_def by (rule the_exec)
qed

lemma pending_state:
  "exec demo_init (stopped_run @ [Client_connect 0]) = Some pending_state \<and>
   (should_stop pending_state, user pending_state, listener pending_state, proxy_threads pending_state,
    acceptors pending_state, lsocks (os pending_state), length (socks (os pending_state)), dest_addr pending_state) =
   (True, U_Idle, Some 0, Some 1, [A_Accept], [\<lparr>lport = 18080, backlog = 100, pending = [0]\<rparr>], 1, demo_dest)"
proof -
  have "map_option (\<lambda>s. (should_stop s, user s, listener s, proxy_threads s, acceptors s, lsocks (os s),
                         length (socks (os s)), dest_addr s)) (exec demo_init (stopped_run @ [Client_connect 0])) =
        Some (True, U_Idle, Some 0, Some 1, [A_Accept], [\<lparr>lport = 18080, backlog = 100, pending = [0]\<rparr>], 1, demo_dest)"
    by (simp add: stopped_run_def demo_defs run_defs)
  then show ?thesis
    unfolding pending_state_def by (rule the_exec)
qed

lemma main_init_demo: "main_init = (M_Run, demo_init)"
  by (simp add: main_init_def main_proxy_def demo_args_def demo_defs)

lemma main_init_reach: "main_reach main_init"
  unfolding main_init_def by (rule main_reach.init)

lemma sleep_state:
  "main_exec main_init [Main Main_run] = Some (M_Sleep, sleep_state) \<and>
   (should_stop sleep_state, user sleep_state, proxy_threads sleep_state) = (False, U_Idle, Some 0)"
proof -
  have "map_option (\<lambda>c. (fst c, should_stop (snd c), user (snd c), proxy_threads (snd c)))
          (main_exec main_init [Main Main_run]) = Some (M_Sleep, False, U_Idle, Some 0)"
    by (simp add: main_init_demo demo_defs run_defs)
  from the_some [OF this] show ?thesis
    unfolding sleep_state_def by (cases "the (main_exec main_init [Main Main_run])") simp
qed

lemma sleep_state_reach: "main_reach (M_Sleep, sleep_state)"
  using main_exec_reach [OF main_init_reach] sleep_state by blast

lemma serving_state:
  "main_exec main_init (Main Main_run # map Sys serve_actions) = Some (M_Sleep, serving_state) \<and>
   (should_stop serving_state, user serving_state, map fpc (fwds serving_state)) = (False, U_Idle, [F_Top, F_Top])"
proof -
  have "map_option (\<lambda>c. (fst c, should_stop (snd c), user (snd c), map fpc (fwds (snd c))))
          (main_exec main_init (Main Main_run # map Sys serve_actions)) = Some (M_Sleep, False, U_Idle, [F_Top, F_Top])"
    by (simp add: main_init_demo serve_actions_def nondaemon_alive_def demo_defs run_defs)
  from the_some [OF this] show ?thesis
    unfolding serving_state_def by (cases "the (main_exec main_init (Main Main_run # map Sys serve_actions))") simp
qed

lemma serving_state_reach: "main_reach (M_Sleep, serving_state)"
  using main_exec_reach [OF main_init_reach] serving_state by blast

lemma interrupted_state:
  "main_exec (M_Sleep, serving_state) (Main (Signal KeyboardInterrupt) # map Sys interrupt_actions) =
     Some (M_Exit (Some KeyboardInterrupt), interrupted_state) \<and>
   (should_stop interrupted_state, acceptors interrupted_state, length (socks (os interrupted_state))) =
   (False, [A_Spawn 2 3], 4)"
proof -
  have e: "main_exec main_init ((Main Main_run # map Sys serve_actions) @ Main (Signal KeyboardInterrupt) # map Sys interrupt_actions) =
           main_exec (M_Sleep, serving_state) (Main (Signal KeyboardInterrupt) # map Sys interrupt_actions)"
    using serving_state by (simp only: main_exec_append) simp
  have "map_option (\<lambda>c. (fst c, should_stop (snd c), acceptors (snd c), length (socks (os (snd c)))))
          (main_exec main_init ((Main Main_run # map Sys serve_actions) @ Main (Signal KeyboardInterrupt) # map Sys interrupt_actions)) =
        Some (M_Exit (Some KeyboardInterrupt), False, [A_Spawn 2 3], 4)"
    by (simp add: main_init_demo serve_actions_def interrupt_actions_def nondaemon_alive_def demo_defs run_defs)
  from the_some [OF this [unfolded e]] show ?thesis
    unfolding interrupted_state_def
    by (cases "the (main_exec (M_Sleep, serving_state) (Main (Signal KeyboardInterrupt) # map Sys interrupt_actions))") simp
qed

section \<open>The data path\<close>

section \<open>Witnesses of the data-path claims\<close>

theorem partial_send_loses_bytes_witness:
  "(0::nat) < length (fwds connect_state) \<and> fpc (fwds connect_state ! 0) = F_Send [1, 2] \<and>
   (0::nat) < 1 \<and> 1 < length [1, 2::byte] \<and>
   fdst (fwds connect_state ! 0) < length (socks (os connect_state)) \<and>
   \<not> reset (socks (os connect_state) ! fdst (fwds connect_state ! 0)) \<and>
   relay_exact (fwds connect_state ! 0) (socks (os connect_state)) \<and>
   (\<exists>s'. step connect_state (Fwd_step 0 1) = Some s' \<and> fpc (fwds s' ! 0) = F_Top \<and>
         tx (socks (os s') ! fdst (fwds s' ! 0)) @ drop 1 [1, 2] @ rx (socks (os s') ! fsrc (fwds s' ! 0)) =
           rx_total (socks (os s') ! fsrc (fwds s' ! 0)) \<and>
         drop 1 [1, 2::byte] \<noteq> [])"
proof -
  have h: "(0::nat) < length (fwds connect_state)" "fpc (fwds connect_state ! 0) = F_Send [1, 2]"
    "(0::nat) < 1" "1 < length [1, 2::byte]"
    "fdst (fwds connect_state ! 0) < length (socks (os connect_state))"
    "\<not> reset (socks (os connect_state) ! fdst (fwds connect_state ! 0))"
    "relay_exact (fwds connect_state ! 0) (socks (os connect_state))"
    using connect_state by (simp_all add: relay_exact_def relay_stream_def)
  show ?thesis
    using h partial_send_loses_bytes [OF h] by blast
qed

theorem relay_integrity_witness:
  "reachable loss_state \<and> (0::nat) < length (fwds loss_state) \<and>
   subseq (tx (socks (os loss_state) ! fdst (fwds loss_state ! 0)))
          (rx_total (socks (os loss_state) ! fsrc (fwds loss_state ! 0)))"
proof -
  have "(0::nat) < length (fwds loss_state)"
    using loss_state by simp
  then show ?thesis
    using loss_state_reachable relay_integrity [OF loss_state_reachable] by blast
qed

theorem relay_exact_full_sends_witness:
  "reachable_by full_sends exact_state \<and> (0::nat) < length (fwds exact_state) \<and>
   \<not> crashed (fpc (fwds exact_state ! 0)) \<and>
   tx (socks (os exact_state) ! fdst (fwds exact_state ! 0)) @ held (fpc (fwds exact_state ! 0)) @
     rx (socks (os exact_state) ! fsrc (fwds exact_state ! 0)) =
   rx_total (socks (os exact_state) ! fsrc (fwds exact_state ! 0))"
proof -
  have h: "(0::nat) < length (fwds exact_state)" "\<not> crashed (fpc (fwds exact_state ! 0))"
    using exact_state by simp_all
  then show ?thesis
    using exact_state_reachable relay_exact_full_sends [OF exact_state_reachable h] by blast
qed

theorem sockets_owned_once_witness:
  "reachable loss_state \<and> (0::nat) < length (fwds loss_state) \<and> (1::nat) < length (fwds loss_state) \<and>
   fsrc (fwds loss_state ! 0) \<noteq> fsrc (fwds loss_state ! 1) \<and>
   fdst (fwds loss_state ! 0) \<noteq> fdst (fwds loss_state ! 1)"
proof -
  have h: "(0::nat) < length (fwds loss_state)" "(1::nat) < length (fwds loss_state)"
    using loss_state by simp_all
  then show ?thesis
    using loss_state_reachable sockets_owned_once [OF loss_state_reachable h] by simp
qed

theorem forwarders_paired_witness:
  "reachable loss_state \<and> pair_inv loss_state \<and> length (fwds loss_state) = 2"
  using loss_state loss_state_reachable forwarders_paired [OF loss_state_reachable] by simp

section \<open>A run where \<open>stop\<close> raises\<close>

text \<open>
  On \<open>rt_run\<close>, \<open>stop\<close> is called after line 76 recorded two threads and before
  line 77 started them: \<open>t.join()\<close> raises \<open>RuntimeError\<close> instead of waiting,
  with the flag already set, so the proxy can then be neither stopped nor restarted.
\<close>

lemma stop_runtime_error:
  "reachable rt_state \<and> should_stop rt_state \<and> user rt_state = U_Idle \<and>
   last_exc rt_state = Some (RuntimeError ''cannot join thread before it is started'') \<and>
   map fpc (fwds rt_state) = [F_New, F_New]"
  using demo_exec_reachable rt_state by auto

section \<open>Witnesses of the shutdown claims\<close>

theorem accept_after_stop_witness:
  "user pending_state = U_Idle \<and> should_stop pending_state \<and> 0 < length (acceptors pending_state) \<and>
   acceptors pending_state ! 0 = A_Accept \<and> listener pending_state = Some 0 \<and>
   sock_accept 0 (os pending_state) = Some (0, accepted_os) \<and>
   connect_tcp (dest_addr pending_state) True accepted_os = Inr (1, served_os) \<and>
   proxy_threads pending_state = Some 1 \<and>
   exec pending_state [Acc_step 0 False, Acc_step 0 False, Acc_step 0 False, Acc_step 0 False,
                       Acc_step 0 False, Acc_step 0 False, Acc_step 0 False, Acc_step 0 False] =
     Some (pending_state\<lparr>os := served_os,
             fwds := fwds pending_state @ [\<lparr>fsrc = 0, fdst = 1, fpc = F_Top\<rparr>, \<lparr>fsrc = 1, fdst = 0, fpc = F_Top\<rparr>],
             list_heap := (list_heap pending_state)[1 := list_heap pending_state ! 1 @
                            [length (fwds pending_state), Suc (length (fwds pending_state))]],
             acceptors := (acceptors pending_state)[0 := A_Done]\<rparr>)"
proof -
  have a: "sock_accept 0 (os pending_state) = Some (0, accepted_os)"
    using pending_state by (simp add: accepted_os_def sock_accept_def)
  have h: "should_stop pending_state" "0 < length (acceptors pending_state)"
    "acceptors pending_state ! 0 = A_Accept" "listener pending_state = Some 0"
    "proxy_threads pending_state = Some 1" "user pending_state = U_Idle"
    using pending_state by simp_all
  have "length (socks accepted_os) = 1"
    using pending_state by (simp add: accepted_os_def sock_accept_def)
  then have c: "connect_tcp (dest_addr pending_state) True accepted_os = Inr (1, served_os)"
    using pending_state by (simp add: connect_tcp_def served_os_def demo_defs)
  show ?thesis
    using h a c accept_after_stop [OF h(1-4) a c h(5)] by blast
qed

theorem stop_blocks_on_recv_witness:
  "user block_state = U_Join 0 0 \<and> 0 < length (list_heap block_state) \<and>
   0 < length (list_heap block_state ! 0) \<and> list_heap block_state ! 0 ! 0 = 0 \<and>
   0 < length (fwds block_state) \<and> fpc (fwds block_state ! 0) = F_Recv \<and> fsrc (fwds block_state ! 0) = 0 \<and>
   0 < length (socks (os block_state)) \<and> rx (socks (os block_state) ! 0) = [] \<and>
   \<not> rx_eof (socks (os block_state) ! 0) \<and> \<not> reset (socks (os block_state) ! 0) \<and>
   \<not> peer_of 0 (Fwd_step 1 0) \<and> \<not> peer_of 0 (Peer_send 1 [5]) \<and> \<not> peer_of 0 (Client_connect 0) \<and>
   (\<exists>s'. exec block_state [Fwd_step 1 0, Peer_send 1 [5], Client_connect 0] = Some s' \<and>
         user s' = U_Join 0 0 \<and> stop_join_step s' = None \<and> fpc (fwds s' ! 0) = F_Recv)"
proof -
  have h: "user block_state = U_Join 0 0" "0 < length (list_heap block_state)"
    "0 < length (list_heap block_state ! 0)" "list_heap block_state ! 0 ! 0 = 0"
    "0 < length (fwds block_state)" "fpc (fwds block_state ! 0) = F_Recv" "fsrc (fwds block_state ! 0) = 0"
    "0 < length (socks (os block_state))" "rx (socks (os block_state) ! 0) = []"
    "\<not> rx_eof (socks (os block_state) ! 0)" "\<not> reset (socks (os block_state) ! 0)"
    using block_state by simp_all
  have p: "\<not> peer_of 0 (Fwd_step 1 0)" "\<not> peer_of 0 (Peer_send 1 [5])" "\<not> peer_of 0 (Client_connect 0)"
    by (simp_all add: peer_of_def)
  then have pa: "\<forall>a\<in>set [Fwd_step 1 0, Peer_send 1 [5], Client_connect 0]. \<not> peer_of 0 a"
    by simp
  have "\<exists>s'. exec demo_init (block_run @ [Fwd_step 1 0, Peer_send 1 [5], Client_connect 0]) = Some s'"
    by (simp add: block_run_def setup_run_def demo_defs run_defs)
  then obtain s' where ex: "exec block_state [Fwd_step 1 0, Peer_send 1 [5], Client_connect 0] = Some s'"
    using block_state by (auto simp: exec_append)
  show ?thesis
    using h p ex stop_blocks_on_recv [OF h pa ex] by blast
qed

theorem stop_joins_finished_witness:
  "reachable join_state \<and> user join_state = U_Join 0 2 \<and>
   stop_join_step join_state = Some (join_state\<lparr>user := U_Reset 0 2\<rparr>) \<and>
   user (join_state\<lparr>user := U_Reset 0 2\<rparr>) = U_Reset 0 2 \<and>
   2 = length (list_heap (join_state\<lparr>user := U_Reset 0 2\<rparr>) ! 0) \<and>
   finished (fpc (fwds (join_state\<lparr>user := U_Reset 0 2\<rparr>) ! (list_heap (join_state\<lparr>user := U_Reset 0 2\<rparr>) ! 0 ! 0))) \<and>
   finished (fpc (fwds (join_state\<lparr>user := U_Reset 0 2\<rparr>) ! (list_heap (join_state\<lparr>user := U_Reset 0 2\<rparr>) ! 0 ! 1)))"
proof -
  have r: "reachable join_state"
    using demo_exec_reachable join_state by blast
  have u: "user join_state = U_Join 0 2" and
    st: "stop_join_step join_state = Some (join_state\<lparr>user := U_Reset 0 2\<rparr>)"
    using join_state by (simp_all add: stop_join_step_def)
  have "user (join_state\<lparr>user := U_Reset 0 2\<rparr>) = U_Reset 0 2"
    by simp
  note j = stop_joins_finished [OF r u st this]
  show ?thesis
    using r u st j [THEN conjunct2, rule_format, of 0] j [THEN conjunct2, rule_format, of 1] j
    by simp
qed

theorem chunk_bounds_witness:
  "reachable loss_state \<and> (0, [1, 2]) \<in> set (printed loss_state) \<and>
   snd (0::nat, [1, 2::byte]) \<noteq> [] \<and> length (snd (0::nat, [1, 2::byte])) \<le> recv_bufsize"
proof -
  have p: "(0, [1, 2]) \<in> set (printed loss_state)"
    using loss_state by simp
  show ?thesis
    using loss_state_reachable p chunk_bounds [OF loss_state_reachable p] by blast
qed

theorem eof_spin_witness:
  "(0::nat) < length (fwds spin_state) \<and> fpc (fwds spin_state ! 0) = F_Recv \<and> \<not> should_stop spin_state \<and>
   rx (socks (os spin_state) ! fsrc (fwds spin_state ! 0)) = [] \<and>
   rx_eof (socks (os spin_state) ! fsrc (fwds spin_state ! 0)) \<and>
   \<not> reset (socks (os spin_state) ! fsrc (fwds spin_state ! 0)) \<and>
   \<not> reset (socks (os spin_state) ! fdst (fwds spin_state ! 0)) \<and>
   exec spin_state [Fwd_step 0 5, Fwd_step 0 5, Fwd_step 0 5] = Some spin_state"
proof -
  have h: "(0::nat) < length (fwds spin_state)" "fpc (fwds spin_state ! 0) = F_Recv" "\<not> should_stop spin_state"
    "rx (socks (os spin_state) ! fsrc (fwds spin_state ! 0)) = []"
    "rx_eof (socks (os spin_state) ! fsrc (fwds spin_state ! 0))"
    "\<not> reset (socks (os spin_state) ! fsrc (fwds spin_state ! 0))"
    "\<not> reset (socks (os spin_state) ! fdst (fwds spin_state ! 0))"
    using spin_state by simp_all
  show ?thesis
    using h eof_spin [OF h] by blast
qed

theorem stop_join_terminates_witness:
  "user joinable_state = U_Join 0 0 \<and> list_heap joinable_state ! 0 = [0, 1] \<and>
   finished (fpc (fwds joinable_state ! 0)) \<and> finished (fpc (fwds joinable_state ! 1)) \<and>
   exec joinable_state (replicate (length (list_heap joinable_state ! 0) - 0 + 2) Stop_step) =
     Some (joinable_state\<lparr>proxy_threads := Some (length (list_heap joinable_state)),
             list_heap := list_heap joinable_state @ [[]], user := U_Idle, last_exc := None\<rparr>)"
proof -
  have m: "map fpc (fwds joinable_state) = [F_Done, F_Done]"
    using joinable_state by simp
  then have l: "length (fwds joinable_state) = 2"
    using length_map [of fpc "fwds joinable_state"] by simp
  have h: "user joinable_state = U_Join 0 0" "list_heap joinable_state ! 0 = [0, 1]"
    "finished (fpc (fwds joinable_state ! 0))" "finished (fpc (fwds joinable_state ! 1))"
    using joinable_state nth_map [of 0 "fwds joinable_state" fpc] nth_map [of 1 "fwds joinable_state" fpc] m l
    by simp_all
  then have "\<forall>t\<in>set (list_heap joinable_state ! 0). finished (fpc (fwds joinable_state ! t))"
    by simp
  then show ?thesis
    using h stop_join_terminates [OF h(1)] by blast
qed

section \<open>Witnesses of the launcher claims\<close>

theorem interrupt_skips_stop_witness:
  "main_reach (M_Sleep, serving_state) \<and>
   main_exec (M_Sleep, serving_state) (Main (Signal KeyboardInterrupt) # map Sys interrupt_actions) =
     Some (M_Exit (Some KeyboardInterrupt), interrupted_state) \<and>
   M_Exit (Some KeyboardInterrupt) = M_Exit (Some KeyboardInterrupt) \<and> \<not> should_stop interrupted_state"
  using serving_state_reach interrupted_state
    interrupt_skips_stop [OF serving_state_reach interrupted_state [THEN conjunct1]] by blast

theorem exception_calls_stop_witness:
  "main_reach (M_Sleep, sleep_state) \<and> proxy_threads sleep_state = Some 0 \<and>
   main_step (M_Sleep, sleep_state) (Main (Signal (Py_exc (Exception ''interrupted'')))) =
     Some (M_Stopping, sleep_state\<lparr>should_stop := True, user := U_Join 0 0, last_exc := None\<rparr>)"
proof -
  have p: "proxy_threads sleep_state = Some 0"
    using sleep_state by simp
  show ?thesis
    using sleep_state_reach p exception_calls_stop [OF sleep_state_reach p] by blast
qed

theorem startup_error_is_listen_error_witness:
  "main_reach (M_Run, main_proxy bad_args (init_os [] [''127.0.0.1''])) \<and>
   main_step (M_Run, main_proxy bad_args (init_os [] [''127.0.0.1''])) (Main Main_run) =
     Some (M_Exit (Some (Py_exc (OSError ''Cannot assign requested address''))),
           (main_proxy bad_args (init_os [] [''127.0.0.1'']))\<lparr>last_exc := Some (OSError ''Cannot assign requested address'')\<rparr>) \<and>
   (\<exists>e. Some (Py_exc (OSError ''Cannot assign requested address'')) = Some (Py_exc e) \<and>
        listen_tcp (listen_addr (main_proxy bad_args (init_os [] [''127.0.0.1'']))) 100
          (os (main_proxy bad_args (init_os [] [''127.0.0.1'']))) = Inl e)"
proof -
  have r: "main_reach (M_Run, main_proxy bad_args (init_os [] [''127.0.0.1'']))"
    by (rule main_reach.init)
  have st: "main_step (M_Run, main_proxy bad_args (init_os [] [''127.0.0.1''])) (Main Main_run) =
     Some (M_Exit (Some (Py_exc (OSError ''Cannot assign requested address''))),
           (main_proxy bad_args (init_os [] [''127.0.0.1'']))\<lparr>last_exc := Some (OSError ''Cannot assign requested address'')\<rparr>)"
    by (simp add: main_proxy_def bad_args_def demo_defs run_defs)
  show ?thesis
    using r st startup_error_is_listen_error [OF r st] by blast
qed

section \<open>The printed text\<close>

text \<open>
  C13: In every reachable state, the text line 91 prints for each recorded chunk is
  at most 5148 code points longer than its two endpoint labels: the chunk has at
  most 1024 bytes, its \<open>bytes.__repr__\<close> at most four characters per byte plus
  three, its decoding at most one code point per byte.
\<close>

theorem printed_text_bounded:
  assumes "reachable s" and "p \<in> set (printed s)"
  shows "length (chunk_text src dst (snd p)) \<le> length src + length dst + 5148"
proof -
  have "length (snd p) \<le> 1024"
    using reachable_chunk_inv [OF assms(1)] assms(2) by (auto simp: chunk_inv_def recv_bufsize_def)
  then show ?thesis
    using length_chunk_text [of src dst "snd p"] by linarith
qed

theorem printed_text_bounded_witness:
  "reachable loss_state \<and> (0, [1, 2]) \<in> set (printed loss_state) \<and>
   length (chunk_text (peer_label ''127.0.0.1'' 40000) (target_label demo_dest) (snd (0::nat, [1, 2::byte]))) \<le>
   length (peer_label ''127.0.0.1'' 40000) + length (target_label demo_dest) + 5148"
proof -
  have p: "(0, [1, 2]) \<in> set (printed loss_state)"
    using loss_state by simp
  show ?thesis
    using loss_state_reachable p printed_text_bounded [OF loss_state_reachable p] by blast
qed

section \<open>Witnesses of the life-cycle claims\<close>

theorem port0_second_run_witness:
  "reachable (run_call demo0_init) \<and> listener (run_call demo0_init) \<noteq> None \<and>
   port (listen_addr (run_call demo0_init)) = 0 \<and> \<not> should_stop (run_call demo0_init) \<and>
   fresh_port (bound (os (run_call demo0_init))) \<le> 65535 \<and>
   (\<exists>s'. run (run_call demo0_init) = Inr s' \<and>
         length (acceptors s') = Suc (length (acceptors (run_call demo0_init))) \<and>
         listener s' = Some (length (lsocks (os (run_call demo0_init)))) \<and>
         lport (lsocks (os s') ! length (lsocks (os (run_call demo0_init)))) =
           fresh_port (bound (os (run_call demo0_init))) \<and>
         fresh_port (bound (os (run_call demo0_init))) \<notin> set (bound (os (run_call demo0_init))))"
proof -
  have r: "reachable (run_call demo0_init)"
    by (rule demo0_exec_reachable [of "[Call_run]"]) (simp add: demo_defs run_defs)
  have h: "listener (run_call demo0_init) \<noteq> None" "port (listen_addr (run_call demo0_init)) = 0"
    "\<not> should_stop (run_call demo0_init)" "fresh_port (bound (os (run_call demo0_init))) \<le> 65535"
    by (simp_all add: demo_defs run_defs)
  show ?thesis
    using r h port0_second_run [OF r h] by blast
qed

text \<open>\<open>stop\<close> called before \<open>run\<close> sets the flag; \<open>run\<close> afterwards is refused.\<close>

theorem run_refused_after_stop_witness:
  "should_stop (stop demo_init) \<and> exec (stop demo_init) [Call_run] = Some (run_call (stop demo_init)) \<and>
   user (run_call (stop demo_init)) = U_Idle \<and>
   step (run_call (stop demo_init)) Call_run =
     Some ((run_call (stop demo_init))\<lparr>last_exc := Some (Exception ''Cannot start proxy while it is already running'')\<rparr>)"
proof -
  have h: "should_stop (stop demo_init)" "exec (stop demo_init) [Call_run] = Some (run_call (stop demo_init))"
      "user (run_call (stop demo_init)) = U_Idle"
    by (simp_all add: demo_defs run_defs)
  show ?thesis
    using h run_refused_after_stop [OF h] by simp
qed

theorem stop_refused_after_stop_witness:
  "should_stop (stop demo_init) \<and> exec (stop demo_init) [Call_run] = Some (run_call (stop demo_init)) \<and>
   user (run_call (stop demo_init)) = U_Idle \<and>
   step (run_call (stop demo_init)) Call_stop =
     Some ((run_call (stop demo_init))\<lparr>last_exc := Some (Exception ''Cannot stop already stopped proxy'')\<rparr>)"
proof -
  have h: "should_stop (stop demo_init)" "exec (stop demo_init) [Call_run] = Some (run_call (stop demo_init))"
      "user (run_call (stop demo_init)) = U_Idle"
    by (simp_all add: demo_defs run_defs)
  show ?thesis
    using h stop_refused_after_stop [OF h] by simp
qed

text \<open>The running demo proxy: a second \<open>run\<close> hits the bound port.\<close>

theorem second_run_bind_error_witness:
  "reachable (run_call demo_init) \<and> listener (run_call demo_init) \<noteq> None \<and>
   port (listen_addr (run_call demo_init)) \<noteq> 0 \<and> \<not> should_stop (run_call demo_init) \<and>
   run (run_call demo_init) = Inl (OSError ''Address already in use'')"
proof -
  have r: "reachable (run_call demo_init)"
    by (rule demo_exec_reachable [of "[Call_run]"]) (simp add: demo_defs run_defs)
  have h: "listener (run_call demo_init) \<noteq> None" "port (listen_addr (run_call demo_init)) \<noteq> 0"
      "\<not> should_stop (run_call demo_init)"
    by (simp_all add: demo_defs run_defs)
  show ?thesis
    using r h second_run_bind_error [OF r h] by simp
qed

theorem one_acceptor_witness:
  "reachable (run_call demo_init) \<and> port (listen_addr (run_call demo_init)) \<noteq> 0 \<and>
   length (acceptors (run_call demo_init)) \<le> 1"
proof -
  have r: "reachable (run_call demo_init)"
    by (rule demo_exec_reachable [of "[Call_run]"]) (simp add: demo_defs run_defs)
  have h: "port (listen_addr (run_call demo_init)) \<noteq> 0"
    by (simp add: demo_defs run_defs)
  show ?thesis
    using r h one_acceptor [OF r h] by simp
qed

end
