(* ===== verification/Spec2Isabelle.thy ===== *)
theory Spec2Isabelle
  imports Runs
begin

text \<open>
  \<^bold>\<open>hoodproxy in Isabelle/HOL.\<close>
  hoodproxy (\<open>src/hoodproxy\<close>) is a TCP forwarding proxy in Python. \<open>main.py\<close>
  parses the listen and destination addresses, builds a \<open>TCPProxy\<close>, calls
  \<open>run\<close>, sleeps, and calls \<open>stop\<close> when its sleep raises an \<open>Exception\<close>.
  \<open>types.py\<close> holds everything else: \<open>IPV4Address\<close> (\<open>listen_tcp\<close>, \<open>__repr__\<close>),
  \<open>IPV4Target\<close> (\<open>connect_tcp\<close>) and \<open>TCPProxy\<close>, whose \<open>run\<close> opens the listening
  socket and starts an acceptance thread (\<open>accept_connections\<close>); for every
  accepted client that thread connects to the destination and starts two
  forwarding threads (\<open>forward_traffic\<close>), one per direction, which copy chunks of
  at most 1024 bytes from one socket to the other until they see the shared flag
  \<open>should_stop\<close> that \<open>stop\<close> sets before joining the threads it recorded in
  \<open>proxy_threads\<close>.

  \<^bold>\<open>Theories.\<close>
  \<^item> \<open>Prelude\<close>: bytes as lists of \<open>8 word\<close>, the Python exceptions (\<open>py_exc\<close>), lemma
    collections, list and multiset facts shared by the invariant proofs.
  \<^item> \<open>Socket\<close>: the operating system as the code sees it through Python's \<open>socket\<close>
    module. A connected socket (\<open>sock\<close>) is a receive buffer, the history of what
    the peer sent, an end-of-stream flag, what \<open>send\<close> handed to the kernel, and a
    reset flag; a listening socket (\<open>lsock\<close>) a port and a queue bounded by the
    backlog. \<open>sock_recv\<close>, \<open>sock_send\<close>, \<open>sock_accept\<close> are the calls of lines 89,
    92 and 70, with the kernel's choices (bytes returned, bytes taken) as
    parameters, blocking as \<open>None\<close> and exceptions as \<open>Inl\<close>. The peers (clients and
    the destination) act through \<open>client_connect\<close>, \<open>peer_send\<close>, \<open>peer_close\<close>,
    \<open>peer_reset\<close>.
  \<^item> \<open>Address\<close>: the two dataclasses as records, \<open>__repr__\<close> as \<open>addr_repr\<close> (with
    Python's decimal printing of the port), \<open>listen_tcp\<close> and \<open>connect_tcp\<close> over
    the OS model, following CPython's order of checks (host, port range, port in
    use; an exhausted ephemeral range for port 0 fails with \<open>EADDRINUSE\<close>,
    as Linux's \<open>bind\<close> does). A parser \<open>addr_parse\<close> is the inverse of the
    printer.
  \<^item> \<open>Forwarder\<close>: \<open>forward_traffic\<close> as a program counter \<open>fwd_pc\<close> (flag test,
    \<open>recv\<close>, \<open>send\<close>, finished, crashed) and one step function \<open>forward_step\<close>; the
    relay stream of a thread (sent bytes, chunk in hand, unread bytes) and its
    preservation by the thread's own steps.
  \<^item> \<open>Proxy\<close>: \<open>TCPProxy\<close> as a record of its attributes, extended to the running
    system \<open>sys\<close>: the heap of Python list objects (\<open>proxy_threads\<close> is a reference
    into it, so that the in-place \<open>+=\<close> of line 76 and the rebinding of line 65 are
    told apart), the acceptance threads (\<open>acc_pc\<close>, one constructor per program
    point of lines 68-81), the forwarding threads, the OS, the printed chunks, and
    the caller's thread inside \<open>stop\<close> (\<open>user_pc\<close>). \<open>run\<close>, \<open>stop\<close>,
    \<open>stop_join_step\<close>, \<open>accept_step\<close> and \<open>fwd_sys_step\<close> are the code's operations;
    \<open>step\<close> interleaves them with the environment's actions, \<open>reachable_by\<close> is the
    set of states reachable from \<open>TCPProxy_init\<close> with the actions a predicate
    admits, and \<open>exec\<close> runs a list of actions (used to exhibit concrete runs).

  \<^item> \<open>Lifecycle\<close>: \<open>should_stop\<close> is permanent once set, so \<open>run\<close> and \<open>stop\<close> are
    refused afterwards; the guard of \<open>run\<close> does not see a running proxy, whose
    second \<open>run\<close> fails only at the kernel's bind; at most one acceptance thread
    when the port is fixed; with port 0 a second \<open>run\<close> succeeds on a fresh port,
    rebinds \<open>self.listener\<close> and starts a second acceptance thread.
  \<^item> \<open>Relay\<close>: the ownership invariant \<open>sock_inv\<close> (every socket is held by the
    listener's queue, an acceptance thread, or read by one thread and written by one
    thread; counted with multisets \<open>held_refs\<close>, \<open>src_refs\<close>, \<open>dst_refs\<close>) and the
    relay invariant \<open>relay_inv\<close>, proved for every reachable state by one
    preservation lemma per action and rule induction on \<open>reachable_by\<close>. The claims:
    integrity of every relayed stream (a subsequence of what the peer sent), exact
    relay under \<open>full_sends\<close> schedules (every \<open>send\<close> takes the whole chunk),
    isolation of the sockets, pairing of the forwarding threads, and, from any
    state, a partial \<open>send\<close> drops the rest of its chunk from the stream for good.
  \<^item> \<open>Shutdown\<close>: the validity of every index into the list heap and the
    forwarders (\<open>heap_ok\<close>) and the join invariant \<open>join_inv\<close> of the caller
    inside \<open>stop\<close>; every printed chunk is 1 to 1024 bytes (\<open>chunk_inv\<close>). Frame
    lemmas say what a step leaves alone: a started thread that does not step, a
    socket whose peer is silent (\<open>quiet\<close>), and a join blocked on a thread
    blocked in \<open>recv\<close> (\<open>join_blocked\<close>). The claims: \<open>stop\<close> leaves its join
    loop only when every thread it joined has finished; the loop terminates once
    they have, after one step per remaining thread; it stays blocked, whatever
    the other threads do, while it joins a forwarder whose source peer is silent;
    a forwarder whose source peer has closed spins forever on \<open>recv\<close> returning
    \<open>b''\<close>; an acceptance thread that is in \<open>accept()\<close> when the flag is set still
    connects the client and starts two forwarders after \<open>stop\<close> has run.
  \<^item> \<open>Print\<close>: the text of the \<open>print\<close> of line 91 (\<open>chunk_text\<close>), with Python's
    \<open>str\<close> as a list of code points: \<open>bytes_repr\<close> is CPython's \<open>bytes.__repr__\<close>
    (hex digits taken with \<open>AND\<close> and \<open>drop_bit\<close> on the \<open>8 word\<close>, as the C code
    does), \<open>decode_ignore\<close> is CPython's UTF-8 decoder with \<open>errors='ignore'\<close>
    (\<open>utf8_ignore\<close>, maximal-subpart recovery), and the two endpoint labels; the
    decoder agrees with the textbook one (\<open>utf8_ref\<close>), and the lengths of both
    renderings are bounded by the chunk's.
  \<^item> \<open>Launcher\<close>: \<open>main()\<close> of \<open>main.py\<close> as the main thread's program counter
    \<open>main_pc\<close> paired with the proxy's state; \<open>main_step\<close> takes either a step of
    the main thread (\<open>run\<close>, a sleep that returns, an exception raised in the
    sleep, the return of \<open>stop\<close>) or a step of the other threads and peers.
    \<open>stop\<close>'s join loop steps only while the main thread is inside \<open>stop\<close>
    (\<open>M_Stopping\<close>); after the main thread has left, the other threads go on
    only while a forwarder, a non-daemon thread, is alive (\<open>nondaemon_alive\<close>):
    the interpreter waits for those at exit, and the acceptance thread is a
    daemon. \<open>main_reach\<close> is the set of configurations from a fresh process;
    each holds a reachable proxy state, so the invariants of \<open>Relay\<close> and
    \<open>Shutdown\<close> apply to the program. The claims: an \<open>Exception\<close> calls \<open>stop\<close>;
    a \<open>KeyboardInterrupt\<close> does not, and the flag then stays clear; the only
    start-up error is the bind error.
  \<^item> \<open>Runs\<close>: concrete runs evaluated by the simplifier (\<open>exec\<close>, \<open>exec_by\<close>),
    on which the witnesses of the claims apply them: a served client
    (\<open>serving_state\<close>), a client pending in the listener's queue after \<open>stop\<close>
    (\<open>pending_state\<close>), the launcher started with demo arguments
    (\<open>main_init\<close>) and then interrupted (\<open>interrupted_state\<close>), a run where
    \<open>stop\<close> raises; and the bound of the printed text of every recorded chunk,
    which joins \<open>chunk_inv\<close> to the bounds of \<open>Print\<close>.

  \<^bold>\<open>Bounds.\<close> No fuel is used: loops are program counters stepped by \<open>step\<close>,
  and claims about runs are stated over \<open>reachable_by\<close> or over explicit action
  lists. The termination of \<open>stop\<close>'s join loop is stated with the exact number of
  steps it takes (\<open>stop_join_terminates\<close>).

  \<^bold>\<open>Granularity.\<close> A step is one statement of the source that another thread can
  observe: the flag tests, each blocking call, the two halves of line 76, each
  \<open>start\<close> and each \<open>join\<close>. \<open>run\<close> and the first half of \<open>stop\<close> are atomic: they
  run on the caller's thread and only publish at their end. Python's GIL makes each
  of these statements atomic.

  \<^bold>\<open>Not modelled.\<close> The log lines (\<open>logging.info\<close>, \<open>logging.exception\<close>: they
  go to the library's handlers and nothing reads them back); argument
  parsing in \<open>main.py\<close> (\<open>argparse\<close> is library code: \<open>main_args\<close> holds its
  result) and \<open>logging.basicConfig\<close>; signals other than the interrupt (their
  default action kills the process without running Python code); which labels a
  forwarding thread carries (the state records the sockets of a thread; the
  printed text is stated for any two labels, and \<open>target_label\<close>, \<open>peer_label\<close>
  render the ones line 74-75 pass); stdout buffering of \<open>print\<close>; time (\<open>sleep(.5)\<close> is one step; no timeouts exist
  in the code); closing of sockets (the code never closes one).
\<close>

end
